theory Spec2Isabelle
  imports Complex_Main "HOL-Library.Log_Nat"
begin

section \<open>Data model\<close>

text \<open>
  The controller \<^verbatim>\<open>api/controllers/StoryController.js\<close> works on Sails model instances.
  Each model is a record of the attributes the controller reads or writes, with a title
  standing for the descriptive attributes it only passes through. Field names carry a
  prefix (\<open>s_\<close>, \<open>t_\<close>, \<open>p_\<close>) because stories, tasks and phases share attribute names
  such as \<^verbatim>\<open>id\<close>, \<^verbatim>\<open>isDone\<close> and \<^verbatim>\<open>timeStart\<close>.

  A JavaScript \<^verbatim>\<open>Date\<close> is its time value, the milliseconds since the epoch, which may
  be zero or negative; a nullable date is an \<open>option\<close> with \<open>None\<close> for \<^verbatim>\<open>null\<close>.
\<close>

type_synonym time = int

text \<open>
  The attributes of a story that survive the five \<^verbatim>\<open>delete\<close> statements of the split
  action are \<open>story_data\<close>; a stored story adds the deleted ones:
  \<^verbatim>\<open>id\<close>, \<^verbatim>\<open>createdAt\<close>, \<^verbatim>\<open>updatedAt\<close>, \<^verbatim>\<open>timeStart\<close>, \<^verbatim>\<open>timeEnd\<close>.
\<close>

record story_data =
  s_title :: string
  s_description :: string
  s_projectId :: int
  s_sprintId :: int
  s_parentId :: int
  s_isDone :: bool

record story = story_data +
  s_id :: int
  s_createdAt :: time
  s_updatedAt :: time
  s_timeStart :: "time option"
  s_timeEnd :: "time option"

record task =
  t_id :: int
  t_storyId :: int
  t_phaseId :: int
  t_userId :: int
  t_typeId :: int
  t_title :: string
  t_isDone :: bool
  t_timeStart :: "time option"
  t_timeEnd :: "time option"

record phase =
  p_id :: int
  p_projectId :: int
  p_order :: int
  p_title :: string
  p_isDone :: bool

record user =
  u_id :: int
  u_name :: string

record tasktype =
  ty_id :: int
  ty_title :: string

text \<open>A row of the PhaseDuration ledger.\<close>

record phaseDuration =
  pd_phaseId :: int
  pd_storyId :: int
  pd_duration :: int

section \<open>Query criteria\<close>

text \<open>
  A \<^verbatim>\<open>where\<close> object is a list of criteria that must all hold. \<open>Field k v\<close> is the
  entry \<^verbatim>\<open>k: v\<close>; \<open>Or cs\<close> is the entry \<^verbatim>\<open>or: [...]\<close>. The attribute name is kept as
  the string written in the source.
\<close>

datatype crit = Field string int | Or "crit list"

text \<open>
  The attributes of each model by name, booleans as the 0/1 the source queries them with
  (\<^verbatim>\<open>isDone: 0\<close>). A name that is no attribute of the model has no value: JavaScript
  property names are case sensitive.
\<close>

definition task_field :: "task \<Rightarrow> string \<Rightarrow> int option" where
  "task_field t k =
     (if k = ''id'' then Some (t_id t)
      else if k = ''storyId'' then Some (t_storyId t)
      else if k = ''phaseId'' then Some (t_phaseId t)
      else if k = ''userId'' then Some (t_userId t)
      else if k = ''typeId'' then Some (t_typeId t)
      else if k = ''isDone'' then Some (if t_isDone t then 1 else 0)
      else None)"

definition phase_field :: "phase \<Rightarrow> string \<Rightarrow> int option" where
  "phase_field p k =
     (if k = ''id'' then Some (p_id p)
      else if k = ''projectId'' then Some (p_projectId p)
      else if k = ''order'' then Some (p_order p)
      else if k = ''isDone'' then Some (if p_isDone p then 1 else 0)
      else None)"

fun matches :: "('a \<Rightarrow> string \<Rightarrow> int option) \<Rightarrow> 'a \<Rightarrow> crit \<Rightarrow> bool" where
  "matches fld x (Field k v) = (fld x k = Some v)"
| "matches fld x (Or cs) = (\<exists>c \<in> set cs. matches fld x c)"

text \<open>
  Modelled from the spec: the row selection behind \<^verbatim>\<open>DataService.getTasks(filter)\<close> and
  \<^verbatim>\<open>DataService.getPhases(filter)\<close>, which are not in the source file. A row is selected
  when it meets every criterion of the filter, attribute names compared exactly.
\<close>

definition find_where :: "('a \<Rightarrow> string \<Rightarrow> int option) \<Rightarrow> crit list \<Rightarrow> 'a list \<Rightarrow> 'a list" where
  "find_where fld wh rows = filter (\<lambda>x. \<forall>c \<in> set wh. matches fld x c) rows"

section \<open>The world: tables, clock, observers and failures\<close>

text \<open>The patch object of \<^verbatim>\<open>Story.update\<close>; \<open>up_timeStart = None\<close> is a patch without that key.\<close>

record story_patch =
  up_isDone :: bool
  up_timeStart :: "time option option"
  up_timeEnd :: "time option"

text \<open>
  Every call the controller makes to a collaborator, with its arguments, and the two
  events of a parallel stage: a job reaching completion, and the stage invoking the
  continuation of its caller.
\<close>

datatype call =
    GetStory int
  | GetPhases "crit list"
  | GetTasks "crit list"
  | GetTask int
  | GetUsers
  | GetTypes
  | HasStoryAccess int
  | SumDuration int int
  | StoryCreate story_data
  | StoryUpdate int story_patch
  | TaskSave task
  | PublishStoryCreate story
  | PublishStoryUpdate int story
  | PublishTaskDestroy int
  | PublishTaskCreate task
  | JobCompleted string
  | ContinuationInvoked

datatype error = DataAccessError call | PersistenceError call | AccessDenied call | TypeError

text \<open>
  The state the controller runs against: the tables of the persistence layer, the clock
  read by \<^verbatim>\<open>new Date()\<close>, the role the access check grants, the calls made so far
  (\<open>trace\<close>, socket publications included), and \<open>faulty\<close>, which says which collaborator
  calls fail.
\<close>

record world =
  stories :: "story list"
  tasks :: "task list"
  phases :: "phase list"
  users :: "user list"
  types :: "tasktype list"
  ledger :: "phaseDuration list"
  now :: time
  role :: int
  faulty :: "call \<Rightarrow> bool"
  trace :: "call list"

definition called :: "call \<Rightarrow> world \<Rightarrow> world" where
  "called c w = w\<lparr>trace := trace w @ [c]\<rparr>"

subsection \<open>Data access\<close>

text \<open>
  The DataService and AuthService collaborators are not in the source file. Each read
  is recorded in the trace and either fails with an error or returns the rows it selects.
\<close>

text \<open>
  Modelled from the spec: \<^verbatim>\<open>DataService.getStory(id) -> Story\<close>, the first story with the
  id; it fails with a data access error when the call is faulty or no story has the id.
\<close>

definition getStory :: "int \<Rightarrow> world \<Rightarrow> (error + story) \<times> world" where
  "getStory sid w =
     (if faulty w (GetStory sid) then (Inl (DataAccessError (GetStory sid)), called (GetStory sid) w)
      else case find (\<lambda>s. s_id s = sid) (stories w) of
             None \<Rightarrow> (Inl (DataAccessError (GetStory sid)), called (GetStory sid) w)
           | Some s \<Rightarrow> (Inr s, called (GetStory sid) w))"

text \<open>
  Modelled from the spec: \<^verbatim>\<open>DataService.getTask(id) -> Task\<close>, the first task with the id;
  it fails with a data access error when the call is faulty or no task has the id.
\<close>

definition getTask :: "int \<Rightarrow> world \<Rightarrow> (error + task) \<times> world" where
  "getTask tid w =
     (if faulty w (GetTask tid) then (Inl (DataAccessError (GetTask tid)), called (GetTask tid) w)
      else case find (\<lambda>t. t_id t = tid) (tasks w) of
             None \<Rightarrow> (Inl (DataAccessError (GetTask tid)), called (GetTask tid) w)
           | Some t \<Rightarrow> (Inr t, called (GetTask tid) w))"

text \<open>
  Modelled from the spec: \<^verbatim>\<open>DataService.getTasks(filter) -> Task[]\<close>, the tasks the filter
  selects, in table order.
\<close>

definition getTasks :: "crit list \<Rightarrow> world \<Rightarrow> (error + task list) \<times> world" where
  "getTasks wh w =
     (if faulty w (GetTasks wh) then (Inl (DataAccessError (GetTasks wh)), called (GetTasks wh) w)
      else (Inr (find_where task_field wh (tasks w)), called (GetTasks wh) w))"

text \<open>
  Modelled from the spec: \<^verbatim>\<open>DataService.getPhases(filter) -> Phase[]\<close>, the phases the
  filter selects, in table order.
\<close>

definition getPhases :: "crit list \<Rightarrow> world \<Rightarrow> (error + phase list) \<times> world" where
  "getPhases wh w =
     (if faulty w (GetPhases wh) then (Inl (DataAccessError (GetPhases wh)), called (GetPhases wh) w)
      else (Inr (find_where phase_field wh (phases w)), called (GetPhases wh) w))"

text \<open>Modelled from the spec: \<^verbatim>\<open>DataService.getUsers(filter) -> User[]\<close> with the empty filter.\<close>

definition getUsers :: "world \<Rightarrow> (error + user list) \<times> world" where
  "getUsers w =
     (if faulty w GetUsers then (Inl (DataAccessError GetUsers), called GetUsers w)
      else (Inr (users w), called GetUsers w))"

text \<open>Modelled from the spec: \<^verbatim>\<open>DataService.getTypes(filter) -> Type[]\<close> with the empty filter.\<close>

definition getTypes :: "world \<Rightarrow> (error + tasktype list) \<times> world" where
  "getTypes w =
     (if faulty w GetTypes then (Inl (DataAccessError GetTypes), called GetTypes w)
      else (Inr (types w), called GetTypes w))"

text \<open>
  Modelled from the spec: \<^verbatim>\<open>AccessControl.hasAccess(user, resourceId) -> Role\<close>, which
  either refuses or gives the role of the user.
\<close>

definition hasStoryAccess :: "int \<Rightarrow> world \<Rightarrow> (error + int) \<times> world" where
  "hasStoryAccess sid w =
     (if faulty w (HasStoryAccess sid)
      then (Inl (AccessDenied (HasStoryAccess sid)), called (HasStoryAccess sid) w)
      else (Inr (role w), called (HasStoryAccess sid) w))"

subsection \<open>Persistence\<close>

text \<open>
  The persistence operations of the Story, Task and PhaseDuration models are not in the
  source file. Each call is recorded in the trace and fails when it is faulty.
\<close>

text \<open>Modelled from the spec: the id that \<^verbatim>\<open>create\<close> gives a new story, greater than every id in the table.\<close>

definition freshId :: "story list \<Rightarrow> int" where
  "freshId ss = 1 + foldl max 0 (map s_id ss)"

text \<open>
  Modelled from the spec: \<^verbatim>\<open>Persistence.create(entity) -> Entity\<close> for stories. The entity
  is stored under a fresh id, with both audit times set to the clock and no start or end
  time, and returned.
\<close>

definition Story_create :: "story_data \<Rightarrow> world \<Rightarrow> (error + story) \<times> world" where
  "Story_create d w =
     (if faulty w (StoryCreate d) then (Inl (PersistenceError (StoryCreate d)), called (StoryCreate d) w)
      else
        (let s = \<lparr>s_title = s_title d, s_description = s_description d,
                  s_projectId = s_projectId d, s_sprintId = s_sprintId d,
                  s_parentId = s_parentId d, s_isDone = s_isDone d,
                  s_id = freshId (stories w), s_createdAt = now w, s_updatedAt = now w,
                  s_timeStart = None, s_timeEnd = None\<rparr>
         in (Inr s, called (StoryCreate d) (w\<lparr>stories := stories w @ [s]\<rparr>))))"

text \<open>Modelled from the spec: the effect of a patch object on one story.\<close>

definition apply_patch :: "story_patch \<Rightarrow> story \<Rightarrow> story" where
  "apply_patch u s =
     s\<lparr>s_isDone := up_isDone u,
       s_timeStart := (case up_timeStart u of None \<Rightarrow> s_timeStart s | Some v \<Rightarrow> v),
       s_timeEnd := up_timeEnd u\<rparr>"

text \<open>
  Modelled from the spec: \<^verbatim>\<open>Persistence.update(filter, patch) -> Entity[]\<close> for stories
  with the filter \<^verbatim>\<open>{id: ...}\<close>. Every story with the id is patched, and the patched
  stories are returned.
\<close>

definition Story_update :: "int \<Rightarrow> story_patch \<Rightarrow> world \<Rightarrow> (error + story list) \<times> world" where
  "Story_update sid u w =
     (if faulty w (StoryUpdate sid u)
      then (Inl (PersistenceError (StoryUpdate sid u)), called (StoryUpdate sid u) w)
      else
        (let ss = map (\<lambda>s. if s_id s = sid then apply_patch u s else s) (stories w)
         in (Inr (filter (\<lambda>s. s_id s = sid) ss), called (StoryUpdate sid u) (w\<lparr>stories := ss\<rparr>))))"

text \<open>
  Modelled from the spec: \<^verbatim>\<open>Persistence.save(entity) -> void\<close> for tasks. The rows with the
  task's id are overwritten with the task.
\<close>

definition Task_save :: "task \<Rightarrow> world \<Rightarrow> (error + unit) \<times> world" where
  "Task_save t w =
     (if faulty w (TaskSave t) then (Inl (PersistenceError (TaskSave t)), called (TaskSave t) w)
      else (Inr (), called (TaskSave t)
                     (w\<lparr>tasks := map (\<lambda>r. if t_id r = t_id t then t else r) (tasks w)\<rparr>)))"

text \<open>
  Modelled from the spec: the aggregate query \<^verbatim>\<open>PhaseDuration.find({sum: "duration"})\<close>
  with a filter on phase and story. Its single result row holds the sum of the matching
  ledger rows, or \<^verbatim>\<open>null\<close> when none matches.
\<close>

definition PhaseDuration_sum :: "int \<Rightarrow> int \<Rightarrow> world \<Rightarrow> (error + int option) \<times> world" where
  "PhaseDuration_sum pid sid w =
     (if faulty w (SumDuration pid sid)
      then (Inl (DataAccessError (SumDuration pid sid)), called (SumDuration pid sid) w)
      else
        (let rows = filter (\<lambda>r. pd_phaseId r = pid \<and> pd_storyId r = sid) (ledger w)
         in (Inr (if rows = [] then None else Some (sum_list (map pd_duration rows))),
             called (SumDuration pid sid) w)))"

subsection \<open>Running jobs\<close>

text \<open>
  \<^verbatim>\<open>async.map\<close>: one job per element, all of them issued, the results in the order of
  the elements. The jobs here run to completion one after the other in that order, which
  is one of the schedules the event loop allows; a failing job does not stop its siblings,
  and the error reported is that of the first failing element.
\<close>

fun async_map :: "('a \<Rightarrow> world \<Rightarrow> (error + 'b) \<times> world) \<Rightarrow> 'a list \<Rightarrow> world \<Rightarrow> (error + 'b list) \<times> world" where
  "async_map f [] w = (Inr [], w)"
| "async_map f (x # xs) w =
     (case f x w of
        (r, w1) \<Rightarrow>
          (case async_map f xs w1 of
             (rs, w2) \<Rightarrow>
               (case r of
                  Inl e \<Rightarrow> (Inl e, w2)
                | Inr y \<Rightarrow> (case rs of Inl e \<Rightarrow> (Inl e, w2) | Inr ys \<Rightarrow> (Inr (y # ys), w2)))))"

subsection \<open>Parallel stages\<close>

text \<open>
  \<^verbatim>\<open>async.parallel\<close> belongs to a library that is not in the source file. A job is an
  operation on the world that ends with an error or a result; a stage registers its jobs
  under their names, in a fixed order.
\<close>

type_synonym 'a job = "world \<Rightarrow> (error + 'a) \<times> world"

text \<open>
  Modelled from the spec: the jobs of \<^verbatim>\<open>runParallel\<close> reach completion in an order that
  the stage does not choose. The order is a parameter, a list of positions in the list
  of registered jobs. A job that completes runs on the world its siblings have left,
  writes its result slot, which was empty, and the completion is recorded; a position
  that names no job, or a job whose slot is written, changes nothing.
\<close>

fun complete ::
  "nat list \<Rightarrow> (string \<times> 'a job) list \<Rightarrow> (error + 'a) option list \<Rightarrow> world \<Rightarrow>
   (error + 'a) option list \<times> world" where
  "complete [] jobs slots w = (slots, w)"
| "complete (i # rest) jobs slots w =
     (if i < length jobs \<and> i < length slots \<and> slots ! i = None
      then (case snd (jobs ! i) w of
              (r, w1) \<Rightarrow>
                complete rest jobs (slots[i := Some r]) (called (JobCompleted (fst (jobs ! i))) w1))
      else complete rest jobs slots w)"

text \<open>
  Modelled from the spec: what the continuation of \<^verbatim>\<open>runParallel\<close> receives from the
  results in registration order: the error of the first job that failed, and then no
  result at all, or the results of all the jobs.
\<close>

fun collect :: "(error + 'a) list \<Rightarrow> error + 'a list" where
  "collect [] = Inr []"
| "collect (Inl e # rs) = Inl e"
| "collect (Inr x # rs) = (case collect rs of Inl e \<Rightarrow> Inl e | Inr xs \<Rightarrow> Inr (x # xs))"

text \<open>
  Modelled from the spec: \<^verbatim>\<open>runParallel(jobs) -> (results, error)\<close>. Every job starts with
  an empty slot. The continuation is invoked, once, when every slot is written, and
  the invocation is recorded; while a slot is empty the stage has nothing for its caller
  (\<open>None\<close>).
\<close>

definition runParallel ::
  "nat list \<Rightarrow> (string \<times> 'a job) list \<Rightarrow> world \<Rightarrow> (error + 'a list) option \<times> world" where
  "runParallel order jobs w =
     (case complete order jobs (replicate (length jobs) None) w of
        (slots, w1) \<Rightarrow>
          (if None \<in> set slots then (None, w1)
           else (Some (collect (map the slots)), called ContinuationInvoked w1)))"

section \<open>The split action\<close>

text \<open>
  The payload of \<^verbatim>\<open>Story.create\<close> (lines 168 to 180): the fetched story without
  \<^verbatim>\<open>id\<close>, \<^verbatim>\<open>createdAt\<close>, \<^verbatim>\<open>updatedAt\<close>, \<^verbatim>\<open>timeStart\<close> and \<^verbatim>\<open>timeEnd\<close>, with
  \<^verbatim>\<open>sprintId\<close> and \<^verbatim>\<open>parentId\<close> assigned.
\<close>

definition deleteFields :: "story \<Rightarrow> story_data" where
  "deleteFields s =
     \<lparr>s_title = s_title s, s_description = s_description s, s_projectId = s_projectId s,
      s_sprintId = s_sprintId s, s_parentId = s_parentId s, s_isDone = s_isDone s\<rparr>"

definition newStoryPayload :: "int \<Rightarrow> int \<Rightarrow> story \<Rightarrow> story_data" where
  "newStoryPayload storyId sprintId s = (deleteFields s)\<lparr>s_sprintId := sprintId, s_parentId := storyId\<rparr>"

text \<open>The job \<^verbatim>\<open>newStory\<close>: create the story, then publish its creation.\<close>

definition newStoryJob :: "int \<Rightarrow> int \<Rightarrow> story \<Rightarrow> world \<Rightarrow> (error + story) \<times> world" where
  "newStoryJob storyId sprintId s w =
     (case Story_create (newStoryPayload storyId sprintId s) w of
        (Inl e, w1) \<Rightarrow> (Inl e, w1)
      | (Inr created, w1) \<Rightarrow> (Inr created, called (PublishStoryCreate created) w1))"

text \<open>The job \<^verbatim>\<open>phases\<close>: the phases of the project that are not done.\<close>

definition openPhasesWhere :: "int \<Rightarrow> crit list" where
  "openPhasesWhere projectId = [Field ''isDone'' 0, Field ''projectId'' projectId]"

definition phasesJob :: "int \<Rightarrow> world \<Rightarrow> (error + phase list) \<times> world" where
  "phasesJob projectId w = getPhases (openPhasesWhere projectId) w"

text \<open>
  \<^verbatim>\<open>firstPhase\<close> (lines 243 to 250) starts at \<^verbatim>\<open>phases[0]\<close> and moves to a phase only
  when its order is strictly smaller. An empty list has no first element.
\<close>

fun firstPhase :: "phase list \<Rightarrow> phase option" where
  "firstPhase [] = None"
| "firstPhase (p # ps) =
     Some (foldl (\<lambda>fp ph. if p_order ph < p_order fp then ph else fp) p (p # ps))"

definition changeTasksWhere :: "int \<Rightarrow> phase list \<Rightarrow> crit list" where
  "changeTasksWhere storyId phs =
     [Field ''storyId'' storyId, Or (map (\<lambda>ph. Field ''phaseId'' (p_id ph)) phs)]"

text \<open>The iterator of \<^verbatim>\<open>moveTasks\<close> (lines 304 to 341).\<close>

definition moveTask :: "story \<Rightarrow> phase \<Rightarrow> task \<Rightarrow> world \<Rightarrow> (error + task) \<times> world" where
  "moveTask storyNew fp tsk w =
     (let taskId = t_id tsk;
          timeStart = (if s_sprintId storyNew = 0 then None else t_timeStart tsk);
          phaseId = (if s_sprintId storyNew = 0 then p_id fp else t_phaseId tsk)
      in case getTask taskId w of
           (Inl e, w1) \<Rightarrow> (Inl e, w1)
         | (Inr fetched, w1) \<Rightarrow>
             (let saved = fetched\<lparr>t_storyId := s_id storyNew, t_phaseId := phaseId,
                                  t_timeStart := timeStart\<rparr>
              in case Task_save saved w1 of
                   (Inl e, w2) \<Rightarrow> (Inl e, w2)
                 | (Inr u, w2) \<Rightarrow>
                     (Inr saved,
                      called (PublishTaskCreate saved) (called (PublishTaskDestroy (t_id saved)) w2))))"

definition moveTasks :: "story \<Rightarrow> phase \<Rightarrow> task list \<Rightarrow> world \<Rightarrow> (error + task list) \<times> world" where
  "moveTasks storyNew fp ts w = async_map (moveTask storyNew fp) ts w"

text \<open>
  The comparison \<^verbatim>\<open>task.timeStart > timeStart\<close> of line 396 converts both sides to
  numbers: a date to its time value, \<^verbatim>\<open>null\<close> to 0.
\<close>

definition toNumber :: "time option \<Rightarrow> int" where
  "toNumber d = (case d of None \<Rightarrow> 0 | Some ms \<Rightarrow> ms)"

definition newStoryTimeStart :: "task list \<Rightarrow> time option" where
  "newStoryTimeStart ts =
     foldl (\<lambda>timeStart tsk. if toNumber (t_timeStart tsk) > toNumber timeStart
                             then t_timeStart tsk else timeStart) None ts"

text \<open>The object the action sends: \<^verbatim>\<open>{storyOld, storyNew, tasks, taskCnt}\<close>.\<close>

record split_data =
  storyOld :: story
  storyNew :: story
  movedTasks :: "task list"
  taskCnt :: nat

text \<open>
  The two jobs of \<^verbatim>\<open>finalizeStorySplit\<close> (lines 361 to 436). \<^verbatim>\<open>stories[0]\<close> of an
  update that matched no row is \<^verbatim>\<open>undefined\<close>, and the method call on it throws.
\<close>

definition updateOldJob :: "int \<Rightarrow> world \<Rightarrow> (error + story) \<times> world" where
  "updateOldJob storyId w =
     (case Story_update storyId \<lparr>up_isDone = True, up_timeStart = None, up_timeEnd = Some (now w)\<rparr> w of
        (Inl e, w1) \<Rightarrow> (Inl e, w1)
      | (Inr [], w1) \<Rightarrow> (Inl TypeError, w1)
      | (Inr (s # rest), w1) \<Rightarrow> (Inr s, called (PublishStoryUpdate storyId s) w1))"

definition updateNewJob :: "story \<Rightarrow> task list \<Rightarrow> world \<Rightarrow> (error + story) \<times> world" where
  "updateNewJob created ts w =
     (case Story_update (s_id created)
             \<lparr>up_isDone = False, up_timeStart = Some (newStoryTimeStart ts), up_timeEnd = None\<rparr> w of
        (Inl e, w1) \<Rightarrow> (Inl e, w1)
      | (Inr [], w1) \<Rightarrow> (Inl TypeError, w1)
      | (Inr (s # rest), w1) \<Rightarrow> (Inr s, called (PublishStoryUpdate (s_id s) s) w1))"

definition finalizeStorySplit :: "int \<Rightarrow> story \<Rightarrow> task list \<Rightarrow> world \<Rightarrow> (error + split_data) \<times> world" where
  "finalizeStorySplit storyId created ts w =
     (case updateOldJob storyId w of
        (r1, w1) \<Rightarrow>
          (case updateNewJob created ts w1 of
             (r2, w2) \<Rightarrow>
               (case r1 of
                  Inl e \<Rightarrow> (Inl e, w2)
                | Inr old \<Rightarrow>
                    (case r2 of
                       Inl e \<Rightarrow> (Inl e, w2)
                     | Inr new \<Rightarrow>
                         (Inr \<lparr>storyOld = old, storyNew = new, movedTasks = ts, taskCnt = length ts\<rparr>,
                          w2)))))"

text \<open>\<^verbatim>\<open>changeTasks\<close> (lines 238 to 286): a waterfall of the task fetch and the move.\<close>

definition changeTasks :: "int \<Rightarrow> story \<Rightarrow> phase list \<Rightarrow> world \<Rightarrow> (error + split_data) \<times> world" where
  "changeTasks storyId created phs w =
     (case firstPhase phs of
        None \<Rightarrow> (Inl TypeError, w)
      | Some fp \<Rightarrow>
          (case getTasks (changeTasksWhere storyId phs) w of
             (Inl e, w1) \<Rightarrow> (Inl e, w1)
           | (Inr ts, w1) \<Rightarrow>
               (case moveTasks created fp ts w1 of
                  (Inl e, w2) \<Rightarrow> (Inl e, w2)
                | (Inr moved, w2) \<Rightarrow> finalizeStorySplit storyId created moved w2)))"

text \<open>
  \<^verbatim>\<open>splitStory\<close> (lines 162 to 230): the two parallel jobs and the branch on the phases.
  The jobs of a parallel stage run here in the order they are registered, both to their
  end; when both fail, the error of the first is the one reported.
\<close>

definition splitStory :: "int \<Rightarrow> int \<Rightarrow> int \<Rightarrow> story \<Rightarrow> world \<Rightarrow> (error + split_data) \<times> world" where
  "splitStory storyId sprintId projectId s w =
     (case newStoryJob storyId sprintId s w of
        (r1, w1) \<Rightarrow>
          (case phasesJob projectId w1 of
             (r2, w2) \<Rightarrow>
               (case r1 of
                  Inl e \<Rightarrow> (Inl e, w2)
                | Inr created \<Rightarrow>
                    (case r2 of
                       Inl e \<Rightarrow> (Inl e, w2)
                     | Inr phs \<Rightarrow>
                         (if length phs > 0 then changeTasks storyId created phs w2
                          else finalizeStorySplit storyId created [] w2)))))"

definition split :: "int \<Rightarrow> int \<Rightarrow> int \<Rightarrow> world \<Rightarrow> (error + split_data) \<times> world" where
  "split storyId sprintId projectId w =
     (case getStory storyId w of
        (Inl e, w1) \<Rightarrow> (Inl e, w1)
      | (Inr s, w1) \<Rightarrow> splitStory storyId sprintId projectId s w1)"

text \<open>
  The two parallel stages of the split as stages of \<^verbatim>\<open>runParallel\<close>, for any order of
  completion: the stage of \<^verbatim>\<open>splitStory\<close> (lines 163 to 200), whose jobs are registered
  as \<^verbatim>\<open>newStory\<close> and \<^verbatim>\<open>phases\<close>, and the stage of \<^verbatim>\<open>finalizeStorySplit\<close> (lines 362 to
  422), whose jobs are the elements 0 and 1 of an array.
\<close>

datatype stage_result = ResultNewStory story | ResultPhases "phase list"

definition job_map :: "('a \<Rightarrow> 'b) \<Rightarrow> 'a job \<Rightarrow> 'b job" where
  "job_map f j w = (case j w of (Inl e, w1) \<Rightarrow> (Inl e, w1) | (Inr x, w1) \<Rightarrow> (Inr (f x), w1))"

definition splitStoryJobs :: "int \<Rightarrow> int \<Rightarrow> int \<Rightarrow> story \<Rightarrow> (string \<times> stage_result job) list" where
  "splitStoryJobs storyId sprintId projectId s =
     [(''newStory'', job_map ResultNewStory (newStoryJob storyId sprintId s)),
      (''phases'', job_map ResultPhases (phasesJob projectId))]"

definition splitStoryStage ::
  "nat list \<Rightarrow> int \<Rightarrow> int \<Rightarrow> int \<Rightarrow> story \<Rightarrow> world \<Rightarrow> (error + stage_result list) option \<times> world" where
  "splitStoryStage order storyId sprintId projectId s w =
     runParallel order (splitStoryJobs storyId sprintId projectId s) w"

definition finalizeJobs :: "int \<Rightarrow> story \<Rightarrow> task list \<Rightarrow> (string \<times> story job) list" where
  "finalizeJobs storyId created ts = [(''0'', updateOldJob storyId), (''1'', updateNewJob created ts)]"

definition finalizeStage ::
  "nat list \<Rightarrow> int \<Rightarrow> story \<Rightarrow> task list \<Rightarrow> world \<Rightarrow> (error + story list) option \<times> world" where
  "finalizeStage order storyId created ts w = runParallel order (finalizeJobs storyId created ts) w"

section \<open>The tasks action\<close>

subsection \<open>Numbers\<close>

text \<open>
  Counts and durations are integers, which a JavaScript number holds exactly below
  \<open>2^53\<close>. A quotient is a JavaScript number: a double, or one of the two infinities, or
  \<^verbatim>\<open>NaN\<close>. A finite double is kept as the rational it denotes, and every division and
  multiplication rounds its exact result to the nearest double, as IEEE 754 prescribes.
\<close>

datatype jsnum = Fin rat | PosInf | NegInf | NaN

text \<open>The nearest integer, a tie going to the even one.\<close>

definition rne :: "rat \<Rightarrow> int" where
  "rne m =
     (let f = \<lfloor>m\<rfloor>; r = m - of_int f
      in if r < 1 / 2 then f else if r > 1 / 2 then f + 1 else if even f then f else f + 1)"

text \<open>The binary exponent of a positive rational \<open>a\<close>: the \<open>e\<close> with \<open>2^e \<le> a < 2^(e + 1)\<close>.\<close>

definition expo :: "rat \<Rightarrow> int" where
  "expo a =
     (case quotient_of a of
        (p, q) \<Rightarrow> (let e0 = bitlen p - bitlen q in if 2 powi e0 \<le> a then e0 else e0 - 1))"

text \<open>
  The double nearest to a rational: 53 significant bits, a tie going to the even
  significand. The exponent is not bounded; the quotients and products of the view, of
  integers below \<open>2^53\<close>, stay far from overflow and from the subnormal range.
\<close>

definition fl :: "rat \<Rightarrow> rat" where
  "fl x =
     (if x = 0 then 0
      else (let a = \<bar>x\<bar>; e = expo a; n = rne (a * 2 powi (52 - e))
            in sgn x * of_int n * 2 powi (e - 52)))"

text \<open>\<^verbatim>\<open>a / b\<close> on two integers.\<close>

definition js_div :: "int \<Rightarrow> int \<Rightarrow> jsnum" where
  "js_div a b =
     (if b = 0 then (if a > 0 then PosInf else if a < 0 then NegInf else NaN)
      else Fin (fl (of_int a / of_int b)))"

text \<open>\<^verbatim>\<open>x * k\<close> for an integer \<open>k\<close>.\<close>

definition js_times :: "jsnum \<Rightarrow> int \<Rightarrow> jsnum" where
  "js_times x k =
     (case x of
        Fin r \<Rightarrow> Fin (fl (r * of_int k))
      | PosInf \<Rightarrow> (if k > 0 then PosInf else if k < 0 then NegInf else NaN)
      | NegInf \<Rightarrow> (if k > 0 then NegInf else if k < 0 then PosInf else NaN)
      | NaN \<Rightarrow> NaN)"

text \<open>
  \<^verbatim>\<open>Math.round\<close>: the integer nearest to the double, a half rounded up. The result is
  an integer and needs no rounding to a double.
\<close>

definition js_round :: "jsnum \<Rightarrow> jsnum" where
  "js_round x = (case x of Fin r \<Rightarrow> Fin (of_int \<lfloor>r + 1 / 2\<rfloor>) | PosInf \<Rightarrow> PosInf | NegInf \<Rightarrow> NegInf | NaN \<Rightarrow> NaN)"

subsection \<open>Fetching\<close>

text \<open>The filter of the job \<^verbatim>\<open>tasks\<close>, line 463: \<^verbatim>\<open>{storyid: storyId}\<close>.\<close>

definition tasksWhere :: "int \<Rightarrow> crit list" where
  "tasksWhere storyId = [Field ''storyid'' storyId]"

definition tasksJob :: "int \<Rightarrow> world \<Rightarrow> (error + task list) \<times> world" where
  "tasksJob storyId w = getTasks (tasksWhere storyId) w"

text \<open>A phase with the \<^verbatim>\<open>duration\<close> that \<^verbatim>\<open>fetchPhaseDuration\<close> assigns to it.\<close>

record phase_d = phase +
  p_duration :: int

definition withDuration :: "phase \<Rightarrow> int \<Rightarrow> phase_d" where
  "withDuration p d =
     \<lparr>p_id = p_id p, p_projectId = p_projectId p, p_order = p_order p, p_title = p_title p,
      p_isDone = p_isDone p, p_duration = d\<rparr>"

text \<open>
  The iterator of \<^verbatim>\<open>fetchPhaseDuration\<close> (lines 527 to 547):
  \<^verbatim>\<open>result[0].duration ? result[0].duration : 0\<close>, where \<^verbatim>\<open>null\<close> and 0 are falsy.
\<close>

definition phaseDurationJob :: "story \<Rightarrow> phase \<Rightarrow> world \<Rightarrow> (error + phase_d) \<times> world" where
  "phaseDurationJob s p w =
     (case PhaseDuration_sum (p_id p) (s_id s) w of
        (Inl e, w1) \<Rightarrow> (Inl e, w1)
      | (Inr res, w1) \<Rightarrow>
          (Inr (withDuration p (case res of None \<Rightarrow> 0 | Some d \<Rightarrow> if d \<noteq> 0 then d else 0)), w1))"

definition fetchPhaseDuration :: "story \<Rightarrow> phase list \<Rightarrow> world \<Rightarrow> (error + phase_d list) \<times> world" where
  "fetchPhaseDuration s phs w = async_map (phaseDurationJob s) phs w"

subsection \<open>The view\<close>

text \<open>The data \<^verbatim>\<open>makeView\<close> receives.\<close>

record view_data =
  d_role :: int
  d_story :: story
  d_tasks :: "task list"
  d_users :: "user list"
  d_types :: "tasktype list"
  d_phases :: "phase_d list"

text \<open>A phase with its two percentages, and a task with its relations.\<close>

record phase_view = phase_d +
  durationPercentage :: jsnum
  durationPercentageTotal :: jsnum

record task_view = task +
  tv_type :: "tasktype option"
  tv_user :: "user option"
  tv_phase :: "phase_view option"

text \<open>
  The object handed to \<^verbatim>\<open>response.view\<close>. The two time objects that \<^verbatim>\<open>makeView\<close>
  attaches to each task are moment.js values in the user's time zone and are left out.
\<close>

record view =
  v_role :: int
  v_story :: story
  v_tasks :: "task_view list"
  v_users :: "user list"
  v_types :: "tasktype list"
  v_phases :: "phase_view list"
  totalTime :: int
  totalTimeNoFirst :: int
  cntTaskTotal :: nat
  cntTaskDone :: nat
  progressTask :: jsnum

text \<open>
  \<^verbatim>\<open>xs.reduce(function(memo, i) { return memo + i; })\<close> on a list that is not empty:
  the first element is the initial value. Both uses are guarded by a length test.
\<close>

fun reduceSum :: "int list \<Rightarrow> int" where
  "reduceSum [] = 0"
| "reduceSum (x # xs) = foldl (\<lambda>memo i. memo + i) x xs"

definition calcTotalTime :: "phase_d list \<Rightarrow> int" where
  "calcTotalTime phs = (if length phs > 0 then reduceSum (map p_duration phs) else 0)"

definition calcTotalTimeNoFirst :: "phase_d list \<Rightarrow> int" where
  "calcTotalTimeNoFirst phs =
     (if length phs > 0
      then (let temp = map p_duration (filter (\<lambda>ph. \<not> (p_order ph = 0)) phs)
            in if length temp > 0 then reduceSum temp else 0)
      else 0)"

text \<open>Lines 606 to 609.\<close>

definition calcDurationPercentage :: "int \<Rightarrow> phase_d \<Rightarrow> jsnum" where
  "calcDurationPercentage totalNF ph =
     (if p_duration ph > 0 \<and> p_order ph \<noteq> 0
      then js_times (js_div (p_duration ph) totalNF) 100 else Fin 0)"

definition calcDurationPercentageTotal :: "int \<Rightarrow> phase_d \<Rightarrow> jsnum" where
  "calcDurationPercentageTotal totalT ph =
     (if p_duration ph > 0 then js_times (js_div (p_duration ph) totalT) 100 else Fin 0)"

definition withPercentages :: "int \<Rightarrow> int \<Rightarrow> phase_d \<Rightarrow> phase_view" where
  "withPercentages totalT totalNF ph =
     \<lparr>p_id = p_id ph, p_projectId = p_projectId ph, p_order = p_order ph, p_title = p_title ph,
      p_isDone = p_isDone ph, p_duration = p_duration ph,
      durationPercentage = calcDurationPercentage totalNF ph,
      durationPercentageTotal = calcDurationPercentageTotal totalT ph\<rparr>"

text \<open>Lines 612 to 623: \<^verbatim>\<open>_.find\<close> gives the first match, or \<^verbatim>\<open>undefined\<close>.\<close>

definition withRelations :: "tasktype list \<Rightarrow> user list \<Rightarrow> phase_view list \<Rightarrow> task \<Rightarrow> task_view" where
  "withRelations tys us phs t =
     \<lparr>t_id = t_id t, t_storyId = t_storyId t, t_phaseId = t_phaseId t, t_userId = t_userId t,
      t_typeId = t_typeId t, t_title = t_title t, t_isDone = t_isDone t,
      t_timeStart = t_timeStart t, t_timeEnd = t_timeEnd t,
      tv_type = find (\<lambda>ty. ty_id ty = t_typeId t) tys,
      tv_user = find (\<lambda>u. u_id u = t_userId t) us,
      tv_phase = find (\<lambda>ph. p_id ph = t_phaseId t) phs\<rparr>"

text \<open>Lines 632 to 641.\<close>

definition countDone :: "task list \<Rightarrow> nat" where
  "countDone ts = foldl (\<lambda>memo tsk. if t_isDone tsk then memo + 1 else memo) 0 ts"

definition calcProgress :: "nat \<Rightarrow> nat \<Rightarrow> jsnum" where
  "calcProgress cntDone cntTotal =
     (if cntDone > 0 then js_round (js_times (js_div (int cntDone) (int cntTotal)) 100) else Fin 0)"

definition makeView :: "view_data \<Rightarrow> view" where
  "makeView d =
     (let totalT = calcTotalTime (d_phases d);
          totalNF = calcTotalTimeNoFirst (d_phases d);
          phs = map (withPercentages totalT totalNF) (d_phases d)
      in \<lparr>v_role = d_role d, v_story = d_story d,
          v_tasks = map (withRelations (d_types d) (d_users d) phs) (d_tasks d),
          v_users = d_users d, v_types = d_types d, v_phases = phs,
          totalTime = totalT, totalTimeNoFirst = totalNF,
          cntTaskTotal = length (d_tasks d),
          cntTaskDone = countDone (d_tasks d),
          progressTask = calcProgress (countDone (d_tasks d)) (length (d_tasks d))\<rparr>)"

text \<open>
  The action (lines 446 to 502): five parallel jobs, then the phases of the story's
  project, their durations, and the view.
\<close>

definition tasksAction :: "int \<Rightarrow> world \<Rightarrow> (error + view) \<times> world" where
  "tasksAction storyId w =
     (case hasStoryAccess storyId w of (r1, w1) \<Rightarrow>
     (case getStory storyId w1 of (r2, w2) \<Rightarrow>
     (case tasksJob storyId w2 of (r3, w3) \<Rightarrow>
     (case getUsers w3 of (r4, w4) \<Rightarrow>
     (case getTypes w4 of (r5, w5) \<Rightarrow>
       (case r1 of Inl e \<Rightarrow> (Inl e, w5) | Inr rl \<Rightarrow>
       (case r2 of Inl e \<Rightarrow> (Inl e, w5) | Inr s \<Rightarrow>
       (case r3 of Inl e \<Rightarrow> (Inl e, w5) | Inr ts \<Rightarrow>
       (case r4 of Inl e \<Rightarrow> (Inl e, w5) | Inr us \<Rightarrow>
       (case r5 of Inl e \<Rightarrow> (Inl e, w5) | Inr tys \<Rightarrow>
         (case getPhases [Field ''projectId'' (s_projectId s)] w5 of
            (Inl e, w6) \<Rightarrow> (Inl e, w6)
          | (Inr phs, w6) \<Rightarrow>
              (case fetchPhaseDuration s phs w6 of
                 (Inl e, w7) \<Rightarrow> (Inl e, w7)
               | (Inr phds, w7) \<Rightarrow>
                   (Inr (makeView \<lparr>d_role = rl, d_story = s, d_tasks = ts, d_users = us,
                                   d_types = tys, d_phases = phds\<rparr>), w7)))))))))))))"

section \<open>Example data\<close>

text \<open>
  A project with three phases, of which the one of order 0 is done, one story and its
  tasks, one per given start time, task \<open>n\<close> in phase \<open>10 + n\<close>; the ledger rows are
  given as pairs of a phase id and a duration.
\<close>

definition ex_story :: "int \<Rightarrow> story" where
  "ex_story n = \<lparr>s_title = ''Story'', s_description = ''Text'', s_projectId = 1, s_sprintId = 3,
                  s_parentId = 0, s_isDone = False, s_id = n, s_createdAt = 1000, s_updatedAt = 1000,
                  s_timeStart = Some 2000, s_timeEnd = None\<rparr>"

definition ex_task :: "int \<Rightarrow> int \<Rightarrow> bool \<Rightarrow> time option \<Rightarrow> task" where
  "ex_task n ph dn ts = \<lparr>t_id = n, t_storyId = 1, t_phaseId = ph, t_userId = 1, t_typeId = 1,
                         t_title = ''Task'', t_isDone = dn, t_timeStart = ts, t_timeEnd = None\<rparr>"

definition ex_phase :: "int \<Rightarrow> int \<Rightarrow> phase" where
  "ex_phase n ord = \<lparr>p_id = n, p_projectId = 1, p_order = ord, p_title = ''Phase'', p_isDone = False\<rparr>"

definition ex_world :: "time option list \<Rightarrow> (int \<times> int) list \<Rightarrow> world" where
  "ex_world starts rows =
     \<lparr>stories = [ex_story 1],
      tasks = map (\<lambda>(n, ts). ex_task (int n) (10 + int n) False ts) (enumerate 1 starts),
      phases = [ex_phase 11 2, ex_phase 12 1, (ex_phase 13 0)\<lparr>p_isDone := True\<rparr>],
      users = [], types = [],
      ledger = map (\<lambda>(ph, d). \<lparr>pd_phaseId = ph, pd_storyId = 1, pd_duration = d\<rparr>) rows,
      now = 9000, role = 1, faulty = (\<lambda>c. False), trace = []\<rparr>"

text \<open>The data of a view: phases of order 0, 1, ... with the given durations, and tasks with the given completion flags.\<close>

definition ex_view_data :: "int list \<Rightarrow> bool list \<Rightarrow> view_data" where
  "ex_view_data durs flags =
     \<lparr>d_role = 1, d_story = ex_story 1,
      d_tasks = map (\<lambda>(n, dn). ex_task (int n) 11 dn None) (enumerate 1 flags),
      d_users = [], d_types = [],
      d_phases = map (\<lambda>(n, d). withDuration (ex_phase (10 + int n) (int n)) d) (enumerate 0 durs)\<rparr>"

text \<open>The example world after a second story was created.\<close>

definition ex_two_stories :: world where
  "ex_two_stories = (ex_world [] [])\<lparr>stories := [ex_story 1, ex_story 2]\<rparr>"

text \<open>The example world when the fetch of the open phases of project 1 fails.\<close>

definition ex_phases_down :: world where
  "ex_phases_down = (ex_world [] [])\<lparr>faulty := (\<lambda>k. k = GetPhases (openPhasesWhere 1))\<rparr>"

section \<open>Properties of the tasks action\<close>

subsection \<open>Rounding to a double\<close>

lemma rne_nonneg: "0 \<le> m \<Longrightarrow> 0 \<le> rne m"
  by (auto simp add: rne_def Let_def)

lemma rne_le:
  assumes "m \<le> of_int N"
  shows "rne m \<le> N"
proof -
  have f: "\<lfloor>m\<rfloor> \<le> N" using assms by (simp add: floor_le_iff)
  have "\<lfloor>m\<rfloor> + 1 \<le> N" if "0 < m - of_int \<lfloor>m\<rfloor>"
  proof -
    from that have "of_int \<lfloor>m\<rfloor> < (of_int N :: rat)" using assms by linarith
    then show ?thesis by simp
  qed
  then show ?thesis using f by (auto simp add: rne_def Let_def)
qed

lemma expo_lower:
  assumes "0 < a"
  shows "2 powi (expo a) \<le> a"
proof -
  obtain p q where pq: "quotient_of a = (p, q)" by (cases "quotient_of a")
  then have q: "0 < q" and a: "a = of_int p / of_int q"
    using quotient_of_denom_pos quotient_of_div by auto
  with assms have p: "0 < p" by (simp add: zero_less_divide_iff)
  let ?e0 = "bitlen p - bitlen q"
  show ?thesis
  proof (cases "2 powi ?e0 \<le> a")
    case True
    then show ?thesis by (simp add: expo_def pq Let_def)
  next
    case False
    have bp: "1 \<le> bitlen p" and bq: "1 \<le> bitlen q"
      using p q by (simp_all add: bitlen_alt_def)
    have lo: "(2::rat) powi (bitlen p - 1) \<le> of_int p"
    proof -
      have "(2::int) ^ nat (bitlen p - 1) \<le> p" using bitlen_bounds [OF p] by simp
      then have "(of_int ((2::int) ^ nat (bitlen p - 1)) :: rat) \<le> of_int p" by (simp only: of_int_le_iff)
      then show ?thesis using bp by (simp add: power_int_def)
    qed
    have hi: "(of_int q :: rat) \<le> 2 powi (bitlen q)"
    proof -
      have "q < (2::int) ^ nat (bitlen q)" using bitlen_bounds [OF q] by simp
      then have "(of_int q :: rat) < of_int ((2::int) ^ nat (bitlen q))" by (simp only: of_int_less_iff)
      then show ?thesis using bq by (simp add: power_int_def)
    qed
    have "(2::rat) powi (?e0 - 1) = 2 powi (bitlen p - 1) / 2 powi (bitlen q)"
      by (simp add: power_int_diff)
    also have "\<dots> \<le> of_int p / 2 powi (bitlen q)"
      using lo by (simp add: divide_right_mono)
    also have "\<dots> \<le> of_int p / of_int q"
      using hi p q by (simp add: divide_left_mono)
    finally have "(2::rat) powi (?e0 - 1) \<le> a" by (simp add: a)
    then show ?thesis using False by (simp add: expo_def pq Let_def)
  qed
qed

lemma fl_nonneg: "0 \<le> x \<Longrightarrow> 0 \<le> fl x"
  by (auto simp add: fl_def Let_def rne_nonneg intro!: mult_nonneg_nonneg)

lemma fl_le_int:
  assumes "0 \<le> x" and "x \<le> of_int c" and "c < 2 ^ 53"
  shows "fl x \<le> of_int c"
proof (cases "x = 0")
  case True
  then show ?thesis using assms by (simp add: fl_def)
next
  case False
  with assms have pos: "0 < x" by simp
  let ?e = "expo x"
  have c53: "(of_int c :: rat) < 2 powi 53"
  proof -
    have "(of_int c :: rat) < of_int (2 ^ 53)" using assms(3) by (simp only: of_int_less_iff)
    then show ?thesis by (simp add: power_int_def)
  qed
  have "(2::rat) powi ?e \<le> x" using expo_lower [OF pos] .
  also have "x \<le> of_int c" by fact
  also note c53
  finally have "(2::rat) powi ?e < 2 powi 53" .
  then have "?e < 53" by (rule power_int_le_imp_less_exp [rotated]) simp_all
  then have e: "?e \<le> 52" by simp
  define k where "k = nat (52 - ?e)"
  have s: "(2::rat) powi (52 - ?e) = of_int (2 ^ k)" using e by (simp add: power_int_def k_def)
  have "x * 2 powi (52 - ?e) \<le> of_int c * of_int (2 ^ k)"
    unfolding s using assms(2) by (simp add: mult_right_mono)
  then have "x * 2 powi (52 - ?e) \<le> of_int (c * 2 ^ k)" by simp
  from rne_le [OF this] have "(of_int (rne (x * 2 powi (52 - ?e))) :: rat) \<le> of_int (c * 2 ^ k)"
    by (simp only: of_int_le_iff)
  then have "of_int (rne (x * 2 powi (52 - ?e))) * (2::rat) powi (?e - 52) \<le> of_int (c * 2 ^ k) * 2 powi (?e - 52)"
    by (simp add: mult_right_mono)
  also have "of_int (c * 2 ^ k) * (2::rat) powi (?e - 52) = of_int c * (2 powi (52 - ?e) * 2 powi (?e - 52))"
    by (simp add: s)
  also have "(2::rat) powi (52 - ?e) * 2 powi (?e - 52) = 1"
    by (simp add: power_int_add [symmetric])
  finally show ?thesis using pos by (simp add: fl_def Let_def)
qed

lemma percentage_value:
  "b \<noteq> 0 \<Longrightarrow> js_times (js_div a b) 100 = Fin (fl (fl (of_int a / of_int b) * 100))"
  by (simp add: js_div_def js_times_def)

lemma percentage_bounds:
  assumes "0 < a" and "a \<le> b"
  shows "\<exists>r. js_times (js_div a b) 100 = Fin r \<and> 0 \<le> r \<and> r \<le> 100"
proof -
  have b: "0 < b" using assms by simp
  let ?q = "fl (of_int a / of_int b)"
  have "(of_int a :: rat) / of_int b \<le> 1" using assms b by simp
  then have q1: "?q \<le> 1" using fl_le_int [of "of_int a / of_int b" 1] assms b by simp
  have q0: "0 \<le> ?q" using assms b by (simp add: fl_nonneg)
  have lo: "0 \<le> fl (?q * 100)" using q0 by (simp add: fl_nonneg)
  have "?q * 100 \<le> of_int 100" using q1 by simp
  then have "fl (?q * 100) \<le> of_int 100" using q0 by (intro fl_le_int) simp_all
  then have up: "fl (?q * 100) \<le> 100" by simp
  have "js_times (js_div a b) 100 = Fin (fl (?q * 100))"
    using b by (simp add: percentage_value)
  with up lo show ?thesis by blast
qed

lemma percentage_not_NaN: "0 < a \<Longrightarrow> js_times (js_div a b) 100 \<noteq> NaN"
  by (simp add: js_div_def js_times_def)

subsection \<open>Task counts and progress\<close>

lemma countDone_acc:
  "foldl (\<lambda>memo tsk. if t_isDone tsk then memo + 1 else memo) n ts = n + length (filter t_isDone ts)"
  by (induction ts arbitrary: n) auto

lemma countDone_filter: "countDone ts = length (filter t_isDone ts)"
  by (simp add: countDone_def countDone_acc)

lemma makeView_counts:
  "cntTaskTotal (makeView d) = length (d_tasks d)"
  "cntTaskDone (makeView d) = countDone (d_tasks d)"
  "progressTask (makeView d) = calcProgress (countDone (d_tasks d)) (length (d_tasks d))"
  by (simp_all add: makeView_def Let_def)

lemma countDone_le: "countDone ts \<le> length ts"
  by (simp add: countDone_filter)

lemma calcProgress_eq:
  "calcProgress m n =
     (if m > 0 \<and> n > 0 then Fin (of_int \<lfloor>fl (fl (of_nat m / of_nat n) * 100) + 1 / 2\<rfloor>)
      else if m > 0 then PosInf else Fin 0)"
  by (simp add: calcProgress_def js_div_def js_times_def js_round_def)

lemma calcProgress_range:
  assumes "0 < m" and "m \<le> n"
  shows "0 \<le> \<lfloor>fl (fl (of_nat m / of_nat n) * 100) + 1 / 2\<rfloor>"
    and "\<lfloor>fl (fl (of_nat m / of_nat n) * 100) + 1 / 2\<rfloor> \<le> 100"
proof -
  from percentage_bounds [of "int m" "int n"] assms
  obtain r where "js_times (js_div (int m) (int n)) 100 = Fin r" and r: "0 \<le> r" "r \<le> 100" by auto
  then have eq: "fl (fl (of_nat m / of_nat n) * 100) = r"
    using assms by (simp add: percentage_value)
  show "0 \<le> \<lfloor>fl (fl (of_nat m / of_nat n) * 100) + 1 / 2\<rfloor>" using r by (simp add: eq)
  have "r + 1 / 2 < 101" using r by simp
  then have "\<lfloor>r + 1 / 2\<rfloor> < 101" by (simp add: floor_less_iff)
  then show "\<lfloor>fl (fl (of_nat m / of_nat n) * 100) + 1 / 2\<rfloor> \<le> 100" by (simp add: eq)
qed

text \<open>
  Claim C6. In the view, \<open>cntTaskTotal\<close> is the number of tasks, \<open>cntTaskDone\<close> the number
  of tasks whose completion flag is set, and \<open>progressTask\<close> is
  \<^verbatim>\<open>Math.round(cntTaskDone / cntTaskTotal * 100)\<close> when \<open>cntTaskDone > 0\<close> and 0 otherwise,
  so it is 0 whenever no task is done, the empty task list included. The quotient and
  the product are those of doubles, each rounded once, so the value is the integer
  \<open>\<lfloor>fl (fl (done / total) * 100) + 1 / 2\<rfloor>\<close>; it lies between 0 and 100.
\<close>

theorem C6_progress:
  "cntTaskTotal (makeView d) = length (d_tasks d) \<and>
   cntTaskDone (makeView d) = length (filter t_isDone (d_tasks d)) \<and>
   progressTask (makeView d) =
     (if cntTaskDone (makeView d) > 0
      then js_round (js_times (js_div (int (cntTaskDone (makeView d))) (int (cntTaskTotal (makeView d)))) 100)
      else Fin 0) \<and>
   progressTask (makeView d) =
     (if cntTaskDone (makeView d) > 0
      then Fin (of_int \<lfloor>fl (fl (of_nat (cntTaskDone (makeView d)) / of_nat (cntTaskTotal (makeView d))) * 100)
                        + 1 / 2\<rfloor>)
      else Fin 0) \<and>
   (\<exists>n. progressTask (makeView d) = Fin (of_int n) \<and> 0 \<le> n \<and> n \<le> 100)"
proof -
  let ?m = "countDone (d_tasks d)" and ?n = "length (d_tasks d)"
  have le: "?m \<le> ?n" by (rule countDone_le)
  have a: "cntTaskTotal (makeView d) = ?n" and b: "cntTaskDone (makeView d) = ?m"
    and c: "progressTask (makeView d) = calcProgress ?m ?n" by (simp_all add: makeView_counts)
  have p1: "calcProgress ?m ?n = (if ?m > 0 then js_round (js_times (js_div (int ?m) (int ?n)) 100) else Fin 0)"
    by (simp add: calcProgress_def)
  have p2: "calcProgress ?m ?n =
     (if ?m > 0 then Fin (of_int \<lfloor>fl (fl (of_nat ?m / of_nat ?n) * 100) + 1 / 2\<rfloor>) else Fin 0)"
    using le by (auto simp add: calcProgress_eq)
  have p3: "\<exists>k. calcProgress ?m ?n = Fin (of_int k) \<and> 0 \<le> k \<and> k \<le> 100"
  proof (cases "0 < ?m")
    case True
    from calcProgress_range [OF True le] p2 True show ?thesis by auto
  next
    case False
    then have "calcProgress ?m ?n = Fin (of_int 0)" using p2 by simp
    then show ?thesis by (intro exI [of _ 0]) simp
  qed
  show ?thesis unfolding a b c using p1 p2 p3 by (simp add: countDone_filter [symmetric])
qed

subsection \<open>Durations and totals\<close>

lemma reduceSum_acc: "foldl (\<lambda>memo i. memo + i) (a::int) xs = a + sum_list xs"
  by (induction xs arbitrary: a) auto

lemma reduceSum_sum: "reduceSum xs = sum_list xs"
  by (cases xs) (simp_all add: reduceSum_acc)

lemma calcTotalTime_sum: "calcTotalTime phs = sum_list (map p_duration phs)"
  by (simp add: calcTotalTime_def reduceSum_sum)

lemma calcTotalTimeNoFirst_sum:
  "calcTotalTimeNoFirst phs = sum_list (map p_duration (filter (\<lambda>ph. p_order ph \<noteq> 0) phs))"
  by (simp add: calcTotalTimeNoFirst_def reduceSum_sum Let_def)

lemma makeView_totals:
  "totalTime (makeView d) = calcTotalTime (d_phases d)"
  "totalTimeNoFirst (makeView d) = calcTotalTimeNoFirst (d_phases d)"
  "v_phases (makeView d) = map (withPercentages (calcTotalTime (d_phases d)) (calcTotalTimeNoFirst (d_phases d))) (d_phases d)"
  by (simp_all add: makeView_def Let_def)


lemma called_fields [simp]:
  "stories (called c w) = stories w" "tasks (called c w) = tasks w"
  "phases (called c w) = phases w" "users (called c w) = users w"
  "types (called c w) = types w" "ledger (called c w) = ledger w"
  "now (called c w) = now w" "role (called c w) = role w"
  "faulty (called c w) = faulty w" "trace (called c w) = trace w @ [c]"
  by (simp_all add: called_def)

lemma phaseDurationJob_snd:
  "snd (phaseDurationJob s p w) = called (SumDuration (p_id p) (s_id s)) w"
  by (simp add: phaseDurationJob_def PhaseDuration_sum_def Let_def)

lemma phaseDurationJob_fst:
  "fst (phaseDurationJob s p w) =
     (if faulty w (SumDuration (p_id p) (s_id s))
      then Inl (DataAccessError (SumDuration (p_id p) (s_id s)))
      else Inr (withDuration p (sum_list (map pd_duration
             (filter (\<lambda>r. pd_phaseId r = p_id p \<and> pd_storyId r = s_id s) (ledger w))))))"
  by (simp add: phaseDurationJob_def PhaseDuration_sum_def Let_def)

lemma fetchPhaseDuration_Inr:
  "fst (fetchPhaseDuration s phs w) = Inr phds \<Longrightarrow>
   phds = map (\<lambda>p. withDuration p (sum_list (map pd_duration
             (filter (\<lambda>r. pd_phaseId r = p_id p \<and> pd_storyId r = s_id s) (ledger w))))) phs"
  unfolding fetchPhaseDuration_def
proof (induction phs arbitrary: w phds)
  case Nil
  then show ?case by simp
next
  case (Cons p ps)
  obtain r w1 where j: "phaseDurationJob s p w = (r, w1)" by (cases "phaseDurationJob s p w")
  obtain rs w2 where m: "async_map (phaseDurationJob s) ps w1 = (rs, w2)"
    by (cases "async_map (phaseDurationJob s) ps w1")
  from j have w1: "w1 = called (SumDuration (p_id p) (s_id s)) w"
    using phaseDurationJob_snd [of s p w] by simp
  from j have r: "r = fst (phaseDurationJob s p w)" by simp
  from Cons.prems j m obtain y ys where ry: "r = Inr y" and rys: "rs = Inr ys" and phds: "phds = y # ys"
    by (auto split: sum.splits)
  from rys m have "fst (async_map (phaseDurationJob s) ps w1) = Inr ys" by simp
  from Cons.IH [OF this] have ys: "ys = map (\<lambda>p. withDuration p (sum_list (map pd_duration
             (filter (\<lambda>r. pd_phaseId r = p_id p \<and> pd_storyId r = s_id s) (ledger w))))) ps"
    by (simp add: w1)
  from ry r have "y = withDuration p (sum_list (map pd_duration
             (filter (\<lambda>r. pd_phaseId r = p_id p \<and> pd_storyId r = s_id s) (ledger w))))"
    by (simp add: phaseDurationJob_fst split: if_splits)
  with ys phds show ?case by simp
qed

lemma fetchPhaseDuration_total:
  "\<forall>c. \<not> faulty w c \<Longrightarrow> \<exists>phds. fst (fetchPhaseDuration s phs w) = Inr phds"
  unfolding fetchPhaseDuration_def
proof (induction phs arbitrary: w)
  case Nil
  then show ?case by simp
next
  case (Cons p ps)
  obtain r w1 where j: "phaseDurationJob s p w = (r, w1)" by (cases "phaseDurationJob s p w")
  from j have w1: "w1 = called (SumDuration (p_id p) (s_id s)) w"
    using phaseDurationJob_snd [of s p w] by simp
  from j Cons.prems obtain y where r: "r = Inr y"
    using phaseDurationJob_fst [of s p w] by simp
  have "\<forall>c. \<not> faulty w1 c" using Cons.prems by (simp add: w1)
  from Cons.IH [OF this] obtain ys where "fst (async_map (phaseDurationJob s) ps w1) = Inr ys" by blast
  then show ?case using j r by (auto split: prod.splits)
qed

text \<open>
  Claim C4. The duration \<^verbatim>\<open>fetchPhaseDuration\<close> reports for a phase is the sum of the
  ledger rows of that phase and story, which is 0 when there is none, and the fetch
  succeeds when no call fails; \<open>totalTime\<close> is the sum of the durations of all phases and
  \<open>totalTimeNoFirst\<close> the sum over the phases whose order is not 0, each 0 when there is
  nothing to sum.
\<close>

theorem C4_durations_and_totals:
  "(fst (fetchPhaseDuration s phs w) = Inr phds \<longrightarrow>
      phds = map (\<lambda>p. withDuration p (sum_list (map pd_duration
                (filter (\<lambda>r. pd_phaseId r = p_id p \<and> pd_storyId r = s_id s) (ledger w))))) phs) \<and>
   ((\<forall>c. \<not> faulty w c) \<longrightarrow> (\<exists>phds. fst (fetchPhaseDuration s phs w) = Inr phds)) \<and>
   totalTime (makeView d) = sum_list (map p_duration (d_phases d)) \<and>
   totalTimeNoFirst (makeView d) = sum_list (map p_duration (filter (\<lambda>ph. p_order ph \<noteq> 0) (d_phases d))) \<and>
   (d_phases d = [] \<longrightarrow> totalTime (makeView d) = 0) \<and>
   (filter (\<lambda>ph. p_order ph \<noteq> 0) (d_phases d) = [] \<longrightarrow> totalTimeNoFirst (makeView d) = 0)"
  using fetchPhaseDuration_Inr [of s phs w phds] fetchPhaseDuration_total [of w s phs]
  by (simp add: makeView_totals calcTotalTime_sum calcTotalTimeNoFirst_sum)


subsection \<open>Percentages\<close>

lemma le_sum_list_nonneg:
  "\<forall>y \<in> set xs. (0::int) \<le> y \<Longrightarrow> x \<in> set xs \<Longrightarrow> x \<le> sum_list xs"
proof (induction xs)
  case Nil
  then show ?case by simp
next
  case (Cons a xs)
  have nn: "0 \<le> sum_list xs" using Cons.prems(1) by (simp add: sum_list_nonneg)
  show ?case
  proof (cases "x = a")
    case True
    then show ?thesis using nn by simp
  next
    case False
    with Cons.prems have "x \<in> set xs" by simp
    with Cons have "x \<le> sum_list xs" by simp
    moreover have "0 \<le> a" using Cons.prems(1) by simp
    ultimately show ?thesis by simp
  qed
qed

lemma duration_le_total:
  assumes "\<forall>q \<in> set phs. 0 \<le> p_duration q" and "q \<in> set phs"
  shows "p_duration q \<le> calcTotalTime phs"
  unfolding calcTotalTime_sum
  by (rule le_sum_list_nonneg) (use assms in auto)

lemma duration_le_totalNoFirst:
  assumes "\<forall>q \<in> set phs. 0 \<le> p_duration q" and "q \<in> set phs" and "p_order q \<noteq> 0"
  shows "p_duration q \<le> calcTotalTimeNoFirst phs"
  unfolding calcTotalTimeNoFirst_sum
  by (rule le_sum_list_nonneg) (use assms in auto)

lemma withPercentages_fields [simp]:
  "p_duration (withPercentages tt nf q) = p_duration q"
  "p_order (withPercentages tt nf q) = p_order q"
  "durationPercentage (withPercentages tt nf q) = calcDurationPercentage nf q"
  "durationPercentageTotal (withPercentages tt nf q) = calcDurationPercentageTotal tt q"
  by (simp_all add: withPercentages_def)

text \<open>
  Claim C3, as amended. For every phase of the view, \<open>durationPercentageTotal\<close> is 0 when
  the duration is not positive, \<open>durationPercentage\<close> is 0 when the order is 0 or the
  duration is not positive, and neither is ever \<^verbatim>\<open>NaN\<close>. When no phase has a negative
  duration, both are finite and lie between 0 and 100. The code has no test of the
  denominator, so nothing is promised about infinity once a duration is negative.
\<close>

theorem C3_percentages:
  assumes "ph \<in> set (v_phases (makeView d))"
  shows "(p_duration ph \<le> 0 \<longrightarrow> durationPercentageTotal ph = Fin 0) \<and>
         (p_order ph = 0 \<or> p_duration ph \<le> 0 \<longrightarrow> durationPercentage ph = Fin 0) \<and>
         durationPercentageTotal ph \<noteq> NaN \<and> durationPercentage ph \<noteq> NaN \<and>
         ((\<forall>q \<in> set (d_phases d). 0 \<le> p_duration q) \<longrightarrow>
            (\<exists>r. durationPercentageTotal ph = Fin r \<and> 0 \<le> r \<and> r \<le> 100) \<and>
            (\<exists>r. durationPercentage ph = Fin r \<and> 0 \<le> r \<and> r \<le> 100))"
proof -
  from assms obtain q where q: "q \<in> set (d_phases d)"
    and ph: "ph = withPercentages (calcTotalTime (d_phases d)) (calcTotalTimeNoFirst (d_phases d)) q"
    by (auto simp add: makeView_totals)
  have a: "p_duration ph \<le> 0 \<longrightarrow> durationPercentageTotal ph = Fin 0"
    by (simp add: ph calcDurationPercentageTotal_def)
  have b: "p_order ph = 0 \<or> p_duration ph \<le> 0 \<longrightarrow> durationPercentage ph = Fin 0"
    by (auto simp add: ph calcDurationPercentage_def)
  have c: "durationPercentageTotal ph \<noteq> NaN"
    by (simp add: ph calcDurationPercentageTotal_def percentage_not_NaN)
  have d: "durationPercentage ph \<noteq> NaN"
    by (simp add: ph calcDurationPercentage_def percentage_not_NaN)
  have e: "\<exists>r. durationPercentageTotal ph = Fin r \<and> 0 \<le> r \<and> r \<le> 100"
    if nn: "\<forall>q \<in> set (d_phases d). 0 \<le> p_duration q"
  proof (cases "0 < p_duration q")
    case True
    with percentage_bounds [OF True duration_le_total [OF nn q]] show ?thesis
      by (simp add: ph calcDurationPercentageTotal_def)
  next
    case False
    then show ?thesis by (simp add: ph calcDurationPercentageTotal_def)
  qed
  have f: "\<exists>r. durationPercentage ph = Fin r \<and> 0 \<le> r \<and> r \<le> 100"
    if nn: "\<forall>q \<in> set (d_phases d). 0 \<le> p_duration q"
  proof (cases "0 < p_duration q \<and> p_order q \<noteq> 0")
    case True
    then have pos: "0 < p_duration q" and ord: "p_order q \<noteq> 0" by simp_all
    with percentage_bounds [OF pos duration_le_totalNoFirst [OF nn q ord]] show ?thesis
      by (simp add: ph calcDurationPercentage_def)
  next
    case False
    then show ?thesis by (auto simp add: ph calcDurationPercentage_def)
  qed
  from a b c d e f show ?thesis by blast
qed

section \<open>Properties of the split action\<close>

subsection \<open>Moving tasks\<close>

lemma find_distinct_id:
  "distinct (map t_id xs) \<Longrightarrow> t \<in> set xs \<Longrightarrow> find (\<lambda>x. t_id x = t_id t) xs = Some t"
  by (induction xs) (auto simp add: rev_image_eqI)

lemma moveTask_frame:
  "stories (snd (moveTask sn fp t w)) = stories w"
  "phases (snd (moveTask sn fp t w)) = phases w"
  "faulty (snd (moveTask sn fp t w)) = faulty w"
  "now (snd (moveTask sn fp t w)) = now w"
  by (simp_all add: moveTask_def getTask_def Task_save_def Let_def split: option.splits)

lemma moveTask_found:
  assumes "find (\<lambda>x. t_id x = t_id t) (tasks w) = Some fetched"
  shows "moveTask sn fp t w = (r, w') \<Longrightarrow>
     (\<exists>e. r = Inl e \<and> tasks w' = tasks w) \<or>
     (r = Inr (fetched\<lparr>t_storyId := s_id sn,
                       t_phaseId := (if s_sprintId sn = 0 then p_id fp else t_phaseId t),
                       t_timeStart := (if s_sprintId sn = 0 then None else t_timeStart t)\<rparr>) \<and>
      tasks w' = map (\<lambda>x. if t_id x = t_id t
                           then fetched\<lparr>t_storyId := s_id sn,
                              t_phaseId := (if s_sprintId sn = 0 then p_id fp else t_phaseId t),
                              t_timeStart := (if s_sprintId sn = 0 then None else t_timeStart t)\<rparr>
                           else x) (tasks w))"
  using assms
  by (auto simp add: moveTask_def getTask_def Task_save_def Let_def dest: find_Some_iff [THEN iffD1] split: if_splits)

lemma moveTask_found_total:
  assumes "find (\<lambda>x. t_id x = t_id t) (tasks w) = Some fetched" "\<forall>c. \<not> faulty w c"
  shows "\<exists>y. fst (moveTask sn fp t w) = Inr y"
  using assms by (simp add: moveTask_def getTask_def Task_save_def Let_def)


lemma same_id_same_row:
  "distinct (map t_id xs) \<Longrightarrow> x \<in> set xs \<Longrightarrow> t \<in> set xs \<Longrightarrow> t_id x = t_id t \<Longrightarrow> x = t"
  by (meson distinct_map inj_onD)

lemma ids_after_save:
  "t_id u = t_id t \<Longrightarrow> map t_id (map (\<lambda>x. if t_id x = t_id t then u else x) xs) = map t_id xs"
  by (induction xs) auto

lemma moveTasks_frame:
  "stories (snd (async_map (moveTask sn fp) ts w)) = stories w \<and>
   phases (snd (async_map (moveTask sn fp) ts w)) = phases w \<and>
   faulty (snd (async_map (moveTask sn fp) ts w)) = faulty w \<and>
   now (snd (async_map (moveTask sn fp) ts w)) = now w"
proof (induction ts arbitrary: w)
  case Nil
  then show ?case by simp
next
  case (Cons t ts)
  obtain r1 w1 where j: "moveTask sn fp t w = (r1, w1)" by (cases "moveTask sn fp t w")
  then have w1: "w1 = snd (moveTask sn fp t w)" by simp
  obtain rs w2 where m: "async_map (moveTask sn fp) ts w1 = (rs, w2)"
    by (cases "async_map (moveTask sn fp) ts w1")
  then have w2: "w2 = snd (async_map (moveTask sn fp) ts w1)" by simp
  have "snd (async_map (moveTask sn fp) (t # ts) w) = w2"
    using j m by (simp split: sum.splits)
  then show ?case using Cons.IH [of w1] by (simp add: w2 w1 moveTask_frame)
qed

lemma moveTasks_effect:
  fixes sn :: story and fp :: phase
  defines "upd \<equiv> \<lambda>x. x\<lparr>t_storyId := s_id sn,
                          t_phaseId := (if s_sprintId sn = 0 then p_id fp else t_phaseId x),
                          t_timeStart := (if s_sprintId sn = 0 then None else t_timeStart x)\<rparr>"
  assumes "distinct (map t_id (tasks w))" and "set ts \<subseteq> set (tasks w)" and "distinct (map t_id ts)"
    and "async_map (moveTask sn fp) ts w = (r, w')"
  shows "\<exists>S. S \<subseteq> t_id ` set ts \<and>
             tasks w' = map (\<lambda>x. if t_id x \<in> S then upd x else x) (tasks w) \<and>
             (\<forall>ys. r = Inr ys \<longrightarrow> S = t_id ` set ts \<and> ys = map upd ts) \<and>
             ((\<forall>c. \<not> faulty w c) \<longrightarrow> (\<exists>ys. r = Inr ys))"
  using assms(2-)
proof (induction ts arbitrary: w r w')
  case Nil
  then show ?case by (intro exI [of _ "{}"]) auto
next
  case (Cons t ts)
  have updid [simp]: "\<And>x. t_id (upd x) = t_id x" by (simp add: upd_def)
  obtain r1 w1 where j: "moveTask sn fp t w = (r1, w1)" by (cases "moveTask sn fp t w")
  obtain rs w2 where m: "async_map (moveTask sn fp) ts w1 = (rs, w2)"
    by (cases "async_map (moveTask sn fp) ts w1")
  from Cons.prems have tin: "t \<in> set (tasks w)" and tsin: "set ts \<subseteq> set (tasks w)"
    and tnot: "t_id t \<notin> t_id ` set ts" and dts: "distinct (map t_id ts)" by auto
  have fnd: "find (\<lambda>x. t_id x = t_id t) (tasks w) = Some t"
    by (rule find_distinct_id) (use Cons.prems tin in auto)
  have w1f: "faulty w1 = faulty w" using j moveTask_frame(3) [of sn fp t w] by simp
  have step: "(\<exists>e. r1 = Inl e \<and> tasks w1 = tasks w) \<or>
              (r1 = Inr (upd t) \<and> tasks w1 = map (\<lambda>x. if t_id x = t_id t then upd t else x) (tasks w))"
    unfolding upd_def by (rule moveTask_found [OF fnd j])
  have tot: "(\<forall>c. \<not> faulty w c) \<longrightarrow> (\<exists>y. r1 = Inr y)"
    using moveTask_found_total [OF fnd, of sn fp] j by auto
  have ids1: "map t_id (tasks w1) = map t_id (tasks w)"
    using step by (auto simp add: ids_after_save)
  have d1: "distinct (map t_id (tasks w1))" using Cons.prems(1) by (simp add: ids1)
  have in1: "set ts \<subseteq> set (tasks w1)"
  proof
    fix y assume y: "y \<in> set ts"
    then have "y \<in> set (tasks w)" and "t_id y \<noteq> t_id t" using tsin tnot by (auto simp add: image_iff)
    then show "y \<in> set (tasks w1)" using step by auto
  qed
  from Cons.IH [OF d1 in1 dts m] obtain S' where S': "S' \<subseteq> t_id ` set ts"
    and t2: "tasks w2 = map (\<lambda>x. if t_id x \<in> S' then upd x else x) (tasks w1)"
    and r2: "\<forall>ys. rs = Inr ys \<longrightarrow> S' = t_id ` set ts \<and> ys = map upd ts"
    and tot2: "(\<forall>c. \<not> faulty w1 c) \<longrightarrow> (\<exists>ys. rs = Inr ys)" by blast
  have res: "(r, w') = (case r1 of Inl e \<Rightarrow> (Inl e, w2)
                 | Inr y \<Rightarrow> (case rs of Inl e \<Rightarrow> (Inl e, w2) | Inr ys \<Rightarrow> (Inr (y # ys), w2)))"
    using Cons.prems(4) j m by simp
  then have w': "w' = w2" by (auto split: sum.splits)
  from step show ?case
  proof
    assume "\<exists>e. r1 = Inl e \<and> tasks w1 = tasks w"
    then obtain e where e: "r1 = Inl e" and same: "tasks w1 = tasks w" by blast
    from res e have r: "r = Inl e" by simp
    show ?thesis
      using S' t2 same r w' tot e by (intro exI [of _ S']) auto
  next
    assume ok: "r1 = Inr (upd t) \<and> tasks w1 = map (\<lambda>x. if t_id x = t_id t then upd t else x) (tasks w)"
    have rows: "tasks w2 = map (\<lambda>x. if t_id x \<in> insert (t_id t) S' then upd x else x) (tasks w)"
    proof -
      have "\<And>x. x \<in> set (tasks w) \<Longrightarrow>
              (let y = (if t_id x = t_id t then upd t else x) in if t_id y \<in> S' then upd y else y) =
              (if t_id x \<in> insert (t_id t) S' then upd x else x)"
      proof -
        fix x assume x: "x \<in> set (tasks w)"
        show "(let y = (if t_id x = t_id t then upd t else x) in if t_id y \<in> S' then upd y else y) =
              (if t_id x \<in> insert (t_id t) S' then upd x else x)"
        proof (cases "t_id x = t_id t")
          case True
          then have "x = t" using same_id_same_row [OF Cons.prems(1) x tin] by simp
          moreover have "t_id t \<notin> S'" using S' tnot by auto
          ultimately show ?thesis by simp
        next
          case False
          then show ?thesis by simp
        qed
      qed
      then show ?thesis using ok by (simp add: t2 Let_def)
    qed
    have "insert (t_id t) S' \<subseteq> t_id ` set (t # ts)" using S' by auto
    moreover have "\<forall>ys. r = Inr ys \<longrightarrow> insert (t_id t) S' = t_id ` set (t # ts) \<and> ys = map upd (t # ts)"
      using res ok r2 by (auto split: sum.splits)
    moreover have "(\<forall>c. \<not> faulty w c) \<longrightarrow> (\<exists>ys. r = Inr ys)"
      using res ok tot2 w1f by (auto split: sum.splits)
    ultimately show ?thesis using rows w' by (intro exI [of _ "insert (t_id t) S'"]) simp
  qed
qed

subsection \<open>Updating stories\<close>

lemma find_filter_Cons: "find P xs = Some x \<Longrightarrow> \<exists>rest. filter P xs = x # rest"
  by (induction xs) (auto split: if_splits)

lemma filter_Cons_find: "filter P xs = x # rest \<Longrightarrow> find P xs = Some x"
  by (induction xs) (auto split: if_splits)

lemma find_exists: "\<exists>x \<in> set xs. P x \<Longrightarrow> \<exists>y. find P xs = Some y"
  by (induction xs) auto

lemma apply_patch_id [simp]: "s_id (apply_patch u s) = s_id s"
  by (simp add: apply_patch_def)

lemma patched_rows:
  "filter (\<lambda>s. s_id s = sid) (map (\<lambda>s. if s_id s = sid then apply_patch u s else s) ss) =
   map (apply_patch u) (filter (\<lambda>s. s_id s = sid) ss)"
  by (induction ss) auto

lemma Story_update_frame:
  "tasks (snd (Story_update sid u w)) = tasks w"
  "phases (snd (Story_update sid u w)) = phases w"
  "faulty (snd (Story_update sid u w)) = faulty w"
  "now (snd (Story_update sid u w)) = now w"
  by (simp_all add: Story_update_def Let_def)

lemma Story_update_Inr:
  assumes "Story_update sid u w = (Inr rows, w')"
  shows "rows = map (apply_patch u) (filter (\<lambda>s. s_id s = sid) (stories w))"
    and "stories w' = map (\<lambda>s. if s_id s = sid then apply_patch u s else s) (stories w)"
  using assms by (auto simp add: Story_update_def Let_def patched_rows split: if_splits)

lemma Story_update_ok:
  assumes "\<not> faulty w (StoryUpdate sid u)"
  shows "fst (Story_update sid u w) = Inr (map (apply_patch u) (filter (\<lambda>s. s_id s = sid) (stories w)))"
  using assms by (simp add: Story_update_def Let_def patched_rows)

lemma updateOldJob_frame:
  "tasks (snd (updateOldJob sid w)) = tasks w"
  "phases (snd (updateOldJob sid w)) = phases w"
  "faulty (snd (updateOldJob sid w)) = faulty w"
  "now (snd (updateOldJob sid w)) = now w"
  "map s_id (stories (snd (updateOldJob sid w))) = map s_id (stories w)"
  by (simp_all add: updateOldJob_def Story_update_def Let_def comp_def split: list.splits cong: if_cong)

lemma updateNewJob_frame:
  "tasks (snd (updateNewJob c ts w)) = tasks w"
  "phases (snd (updateNewJob c ts w)) = phases w"
  "faulty (snd (updateNewJob c ts w)) = faulty w"
  "now (snd (updateNewJob c ts w)) = now w"
  "map s_id (stories (snd (updateNewJob c ts w))) = map s_id (stories w)"
  by (simp_all add: updateNewJob_def Story_update_def Let_def comp_def split: list.splits cong: if_cong)

lemma updateOldJob_Inr:
  assumes "updateOldJob sid w = (Inr s, w')"
  shows "\<exists>s0. find (\<lambda>x. s_id x = sid) (stories w) = Some s0 \<and>
              s = apply_patch \<lparr>up_isDone = True, up_timeStart = None, up_timeEnd = Some (now w)\<rparr> s0"
    and "stories w' = map (\<lambda>x. if s_id x = sid
            then apply_patch \<lparr>up_isDone = True, up_timeStart = None, up_timeEnd = Some (now w)\<rparr> x else x) (stories w)"
proof -
  let ?u = "\<lparr>up_isDone = True, up_timeStart = None, up_timeEnd = Some (now w)\<rparr>"
  obtain r1 w1 where u: "Story_update sid ?u w = (r1, w1)" by (cases "Story_update sid ?u w")
  from assms u obtain rest where r1: "r1 = Inr (s # rest)" and w': "w' = called (PublishStoryUpdate sid s) w1"
    by (auto simp add: updateOldJob_def split: sum.splits list.splits)
  from Story_update_Inr [OF u [unfolded r1]]
  have rows: "s # rest = map (apply_patch ?u) (filter (\<lambda>x. s_id x = sid) (stories w))"
    and st: "stories w1 = map (\<lambda>x. if s_id x = sid then apply_patch ?u x else x) (stories w)" by simp_all
  from rows obtain s0 rest0 where f: "filter (\<lambda>x. s_id x = sid) (stories w) = s0 # rest0"
    and s: "s = apply_patch ?u s0" by (cases "filter (\<lambda>x. s_id x = sid) (stories w)") auto
  from filter_Cons_find [OF f] s
  show "\<exists>s0. find (\<lambda>x. s_id x = sid) (stories w) = Some s0 \<and> s = apply_patch ?u s0" by blast
  show "stories w' = map (\<lambda>x. if s_id x = sid then apply_patch ?u x else x) (stories w)"
    by (simp add: w' st)
qed

lemma updateOldJob_ok:
  assumes "\<forall>c. \<not> faulty w c" and "find (\<lambda>x. s_id x = sid) (stories w) = Some s0"
  shows "\<exists>s. fst (updateOldJob sid w) = Inr s"
proof -
  from find_filter_Cons [OF assms(2)] obtain rest where "filter (\<lambda>x. s_id x = sid) (stories w) = s0 # rest" ..
  then show ?thesis using assms(1)
    by (simp add: updateOldJob_def Story_update_def Let_def patched_rows)
qed

lemma updateNewJob_Inr:
  assumes "updateNewJob c ts w = (Inr s, w')"
  shows "\<exists>s0. find (\<lambda>x. s_id x = s_id c) (stories w) = Some s0 \<and>
              s = apply_patch \<lparr>up_isDone = False, up_timeStart = Some (newStoryTimeStart ts), up_timeEnd = None\<rparr> s0"
    and "stories w' = map (\<lambda>x. if s_id x = s_id c
            then apply_patch \<lparr>up_isDone = False, up_timeStart = Some (newStoryTimeStart ts), up_timeEnd = None\<rparr> x
            else x) (stories w)"
proof -
  let ?u = "\<lparr>up_isDone = False, up_timeStart = Some (newStoryTimeStart ts), up_timeEnd = None\<rparr>"
  obtain r1 w1 where u: "Story_update (s_id c) ?u w = (r1, w1)" by (cases "Story_update (s_id c) ?u w")
  from assms u obtain rest where r1: "r1 = Inr (s # rest)" and w': "w' = called (PublishStoryUpdate (s_id s) s) w1"
    by (auto simp add: updateNewJob_def split: sum.splits list.splits)
  from Story_update_Inr [OF u [unfolded r1]]
  have rows: "s # rest = map (apply_patch ?u) (filter (\<lambda>x. s_id x = s_id c) (stories w))"
    and st: "stories w1 = map (\<lambda>x. if s_id x = s_id c then apply_patch ?u x else x) (stories w)" by simp_all
  from rows obtain s0 rest0 where f: "filter (\<lambda>x. s_id x = s_id c) (stories w) = s0 # rest0"
    and s: "s = apply_patch ?u s0" by (cases "filter (\<lambda>x. s_id x = s_id c) (stories w)") auto
  from filter_Cons_find [OF f] s
  show "\<exists>s0. find (\<lambda>x. s_id x = s_id c) (stories w) = Some s0 \<and> s = apply_patch ?u s0" by blast
  show "stories w' = map (\<lambda>x. if s_id x = s_id c then apply_patch ?u x else x) (stories w)"
    by (simp add: w' st)
qed

lemma updateNewJob_ok:
  assumes "\<forall>c. \<not> faulty w c" and "find (\<lambda>x. s_id x = s_id c) (stories w) = Some s0"
  shows "\<exists>s. fst (updateNewJob c ts w) = Inr s"
proof -
  from find_filter_Cons [OF assms(2)] obtain rest where "filter (\<lambda>x. s_id x = s_id c) (stories w) = s0 # rest" ..
  then show ?thesis using assms(1)
    by (simp add: updateNewJob_def Story_update_def Let_def patched_rows)
qed

subsection \<open>The finalize stage\<close>

lemma finalize_unfold:
  assumes "updateOldJob sid w = (r1, w1)" and "updateNewJob c ts w1 = (r2, w2)"
  shows "finalizeStorySplit sid c ts w =
     (case r1 of Inl e \<Rightarrow> (Inl e, w2)
      | Inr old \<Rightarrow> (case r2 of Inl e \<Rightarrow> (Inl e, w2)
                    | Inr new \<Rightarrow> (Inr \<lparr>storyOld = old, storyNew = new, movedTasks = ts, taskCnt = length ts\<rparr>, w2)))"
  using assms by (simp add: finalizeStorySplit_def)

lemma finalize_frame:
  "tasks (snd (finalizeStorySplit sid c ts w)) = tasks w"
proof -
  obtain r1 w1 where a: "updateOldJob sid w = (r1, w1)" by (cases "updateOldJob sid w")
  obtain r2 w2 where b: "updateNewJob c ts w1 = (r2, w2)" by (cases "updateNewJob c ts w1")
  have "snd (finalizeStorySplit sid c ts w) = w2"
    by (simp add: finalize_unfold [OF a b] split: sum.splits)
  moreover have "tasks w2 = tasks w1" using updateNewJob_frame(1) [of c ts w1] b by simp
  moreover have "tasks w1 = tasks w" using updateOldJob_frame(1) [of sid w] a by simp
  ultimately show ?thesis by simp
qed

lemma finalize_Inr:
  assumes "finalizeStorySplit sid c ts w = (Inr d, w')"
  shows "movedTasks d = ts" and "taskCnt d = length ts"
    and "\<exists>w1. updateOldJob sid w = (Inr (storyOld d), w1) \<and> updateNewJob c ts w1 = (Inr (storyNew d), w')"
proof -
  obtain r1 w1 where a: "updateOldJob sid w = (r1, w1)" by (cases "updateOldJob sid w")
  obtain r2 w2 where b: "updateNewJob c ts w1 = (r2, w2)" by (cases "updateNewJob c ts w1")
  from assms have "d = \<lparr>storyOld = projr r1, storyNew = projr r2, movedTasks = ts, taskCnt = length ts\<rparr>
      \<and> w' = w2 \<and> isl r1 = False \<and> isl r2 = False"
    by (auto simp add: finalize_unfold [OF a b] split: sum.splits)
  then show "movedTasks d = ts" and "taskCnt d = length ts"
    and "\<exists>w1. updateOldJob sid w = (Inr (storyOld d), w1) \<and> updateNewJob c ts w1 = (Inr (storyNew d), w')"
    using a b by (cases r1; cases r2; simp)+
qed

lemma finalize_ok:
  assumes nf: "\<forall>c. \<not> faulty w c"
    and old: "\<exists>s \<in> set (stories w). s_id s = sid"
    and new: "\<exists>s \<in> set (stories w). s_id s = s_id c"
  shows "\<exists>d. fst (finalizeStorySplit sid c ts w) = Inr d"
proof -
  obtain r1 w1 where a: "updateOldJob sid w = (r1, w1)" by (cases "updateOldJob sid w")
  obtain r2 w2 where b: "updateNewJob c ts w1 = (r2, w2)" by (cases "updateNewJob c ts w1")
  from find_exists [of "stories w" "\<lambda>x. s_id x = sid"] old
  obtain s0 where "find (\<lambda>x. s_id x = sid) (stories w) = Some s0" by blast
  from updateOldJob_ok [OF nf this] a obtain so where r1: "r1 = Inr so" by auto
  have w1: "w1 = snd (updateOldJob sid w)" using a by simp
  have ids: "map s_id (stories w1) = map s_id (stories w)" by (simp add: w1 updateOldJob_frame)
  have nf1: "\<forall>c. \<not> faulty w1 c" using nf by (simp add: w1 updateOldJob_frame)
  from new obtain sx where sx: "sx \<in> set (stories w)" "s_id sx = s_id c" by blast
  from sx(1) have "s_id sx \<in> s_id ` set (stories w)" by (rule imageI)
  then have "s_id c \<in> set (map s_id (stories w))" by (simp add: sx(2))
  then have "s_id c \<in> set (map s_id (stories w1))" by (simp only: ids)
  then have "s_id c \<in> s_id ` set (stories w1)" by simp
  then have "\<exists>s \<in> set (stories w1). s_id s = s_id c" by (rule imageE) (blast intro: sym)
  from find_exists [of "stories w1" "\<lambda>x. s_id x = s_id c", OF this]
  obtain c0 where "find (\<lambda>x. s_id x = s_id c) (stories w1) = Some c0" by blast
  from updateNewJob_ok [OF nf1 this, of ts] b obtain sn where r2: "r2 = Inr sn" by auto
  show ?thesis by (simp add: finalize_unfold [OF a b] r1 r2)
qed

lemma newStoryTimeStart_acc:
  fixes acc :: "time option"
  defines "f \<equiv> (\<lambda>timeStart tsk. if toNumber (t_timeStart tsk) > toNumber timeStart
                             then t_timeStart tsk else timeStart)"
  assumes "acc = None \<or> 0 < toNumber acc"
  shows "(foldl f acc ts = None \<or> 0 < toNumber (foldl f acc ts)) \<and>
         toNumber acc \<le> toNumber (foldl f acc ts) \<and>
         (\<forall>t \<in> set ts. toNumber (t_timeStart t) \<le> toNumber (foldl f acc ts)) \<and>
         (foldl f acc ts = acc \<or> foldl f acc ts \<in> t_timeStart ` set ts)"
  using assms(2)
proof (induction ts arbitrary: acc)
  case Nil
  then show ?case by simp
next
  case (Cons t ts)
  have good: "f acc t = None \<or> 0 < toNumber (f acc t)"
    using Cons.prems by (auto simp add: f_def toNumber_def split: option.splits)
  have mono: "toNumber acc \<le> toNumber (f acc t)" and ge: "toNumber (t_timeStart t) \<le> toNumber (f acc t)"
    and mem: "f acc t = acc \<or> f acc t = t_timeStart t"
    by (auto simp add: f_def)
  from Cons.IH [OF good] mono ge mem show ?case by auto
qed

lemma newStoryTimeStart_char:
  "(case newStoryTimeStart ts of
      None \<Rightarrow> \<forall>t \<in> set ts. \<forall>ms. t_timeStart t = Some ms \<longrightarrow> ms \<le> 0
    | Some m \<Rightarrow> 0 < m \<and> (\<exists>t \<in> set ts. t_timeStart t = Some m) \<and>
               (\<forall>t \<in> set ts. \<forall>ms. t_timeStart t = Some ms \<longrightarrow> ms \<le> m))"
proof -
  let ?r = "newStoryTimeStart ts"
  from newStoryTimeStart_acc [of None ts]
  have a: "?r = None \<or> 0 < toNumber ?r"
    and b: "\<forall>t \<in> set ts. toNumber (t_timeStart t) \<le> toNumber ?r"
    and c: "?r = None \<or> ?r \<in> t_timeStart ` set ts"
    by (simp_all add: newStoryTimeStart_def)
  show ?thesis
  proof (cases ?r)
    case None
    then show ?thesis using b by (auto simp add: toNumber_def)
  next
    case (Some m)
    then show ?thesis using a b c by (auto simp add: toNumber_def image_iff)
  qed
qed

text \<open>
  What the finalize stage stores in the destination story. The loop that computes the
  start time compares each task's \<^verbatim>\<open>timeStart\<close> with the running value, which starts as
  \<^verbatim>\<open>null\<close> and is read as 0 by the comparison: the stored start time is the greatest start
  time among the reassigned tasks that lies after the epoch, \<^verbatim>\<open>null\<close> when there is none.
\<close>

lemma finalize_new_story:
  assumes "finalizeStorySplit storyId created ts w = (Inr d, w')"
  shows "s_id (storyNew d) = s_id created \<and> storyNew d \<in> set (stories w') \<and>
         s_isDone (storyNew d) = False \<and> s_timeEnd (storyNew d) = None \<and>
         (case s_timeStart (storyNew d) of
            None \<Rightarrow> \<forall>t \<in> set ts. \<forall>ms. t_timeStart t = Some ms \<longrightarrow> ms \<le> 0
          | Some m \<Rightarrow> 0 < m \<and> (\<exists>t \<in> set ts. t_timeStart t = Some m) \<and>
                     (\<forall>t \<in> set ts. \<forall>ms. t_timeStart t = Some ms \<longrightarrow> ms \<le> m))"
proof -
  let ?u = "\<lparr>up_isDone = False, up_timeStart = Some (newStoryTimeStart ts), up_timeEnd = None\<rparr>"
  from finalize_Inr(3) [OF assms] obtain w1
    where new: "updateNewJob created ts w1 = (Inr (storyNew d), w')" by blast
  from updateNewJob_Inr [OF new] obtain s0
    where s0: "find (\<lambda>x. s_id x = s_id created) (stories w1) = Some s0"
      and sn: "storyNew d = apply_patch ?u s0"
      and st: "stories w' = map (\<lambda>x. if s_id x = s_id created then apply_patch ?u x else x) (stories w1)"
    by blast
  from s0 have in1: "s0 \<in> set (stories w1)" and id0: "s_id s0 = s_id created"
    by (auto simp add: find_Some_iff)
  have "storyNew d \<in> set (stories w')"
    unfolding st sn using in1 id0 by (auto simp add: image_iff intro!: bexI [of _ s0])
  moreover have "s_timeStart (storyNew d) = newStoryTimeStart ts"
    by (simp add: sn apply_patch_def)
  moreover have "s_id (storyNew d) = s_id created" by (simp add: sn id0)
  moreover have "s_isDone (storyNew d) = False" and "s_timeEnd (storyNew d) = None"
    by (simp_all add: sn apply_patch_def)
  ultimately show ?thesis using newStoryTimeStart_char [of ts] by simp
qed

text \<open>
  When every start time of a reassigned task lies after the epoch, the stored start time
  is the greatest of them, and \<^verbatim>\<open>null\<close> exactly when no reassigned task has one.
\<close>

lemma finalize_new_story_after_epoch:
  assumes run: "finalizeStorySplit storyId created ts w = (Inr d, w')"
    and pos: "\<forall>t \<in> set ts. \<forall>ms. t_timeStart t = Some ms \<longrightarrow> 0 < ms"
  shows "s_timeStart (storyNew d) =
           (if \<forall>t \<in> set ts. t_timeStart t = None then None
            else Some (Max {ms. \<exists>t \<in> set ts. t_timeStart t = Some ms}))"
proof -
  let ?S = "{ms. \<exists>t \<in> set ts. t_timeStart t = Some ms}"
  have fin: "finite ?S"
  proof (rule finite_subset)
    show "?S \<subseteq> (\<lambda>t. the (t_timeStart t)) ` set ts" by force
    show "finite ((\<lambda>t. the (t_timeStart t)) ` set ts)" by simp
  qed
  from finalize_new_story [OF run]
  have ch: "case s_timeStart (storyNew d) of
            None \<Rightarrow> \<forall>t \<in> set ts. \<forall>ms. t_timeStart t = Some ms \<longrightarrow> ms \<le> 0
          | Some m \<Rightarrow> 0 < m \<and> (\<exists>t \<in> set ts. t_timeStart t = Some m) \<and>
                     (\<forall>t \<in> set ts. \<forall>ms. t_timeStart t = Some ms \<longrightarrow> ms \<le> m)"
    by simp
  show ?thesis
  proof (cases "s_timeStart (storyNew d)")
    case None
    with ch have "\<forall>t \<in> set ts. \<forall>ms. t_timeStart t = Some ms \<longrightarrow> ms \<le> 0" by simp
    with pos have "\<forall>t \<in> set ts. t_timeStart t = None"
      by (metis not_None_eq not_less)
    with None show ?thesis by simp
  next
    case (Some m)
    with ch have mem: "m \<in> ?S" and ub: "\<And>x. x \<in> ?S \<Longrightarrow> x \<le> m" by auto
    have "Max ?S = m" by (rule Max_eqI [OF fin ub mem])
    moreover from mem have "\<not> (\<forall>t \<in> set ts. t_timeStart t = None)" by auto
    ultimately show ?thesis using Some by simp
  qed
qed

subsection \<open>The split as a whole\<close>

lemma openPhases_filter:
  "find_where phase_field (openPhasesWhere pid) phs = filter (\<lambda>p. \<not> p_isDone p \<and> p_projectId p = pid) phs"
  by (simp add: find_where_def openPhasesWhere_def phase_field_def cong: conj_cong)

lemma changeTasks_filter:
  "find_where task_field (changeTasksWhere sid phs) ts =
   filter (\<lambda>t. t_storyId t = sid \<and> t_phaseId t \<in> p_id ` set phs) ts"
  unfolding find_where_def
  by (rule filter_cong) (auto simp add: changeTasksWhere_def task_field_def)

lemma firstPhase_fold:
  "foldl (\<lambda>fp ph. if p_order ph < p_order fp then ph else fp) a ps \<in> set (a # ps) \<and>
   p_order (foldl (\<lambda>fp ph. if p_order ph < p_order fp then ph else fp) a ps) \<le> p_order a \<and>
   (\<forall>p \<in> set ps. p_order (foldl (\<lambda>fp ph. if p_order ph < p_order fp then ph else fp) a ps) \<le> p_order p)"
proof (induction ps arbitrary: a)
  case Nil
  then show ?case by simp
next
  case (Cons q ps)
  show ?case using Cons.IH [of "if p_order q < p_order a then q else a"]
    by (auto split: if_splits)
qed

lemma firstPhase_min:
  assumes "phs \<noteq> []"
  shows "\<exists>fp. firstPhase phs = Some fp \<and> fp \<in> set phs \<and> (\<forall>p \<in> set phs. p_order fp \<le> p_order p)"
proof -
  from assms obtain a ps where phs: "phs = a # ps" by (cases phs) auto
  from firstPhase_fold [of a "a # ps"] show ?thesis by (auto simp add: phs)
qed

lemma freshId_fold: "(a::int) \<le> foldl max a xs \<and> (\<forall>x \<in> set xs. x \<le> foldl max a xs)"
proof (induction xs arbitrary: a)
  case Nil
  then show ?case by simp
next
  case (Cons y ys)
  from Cons.IH [of "max a y"] show ?case by auto
qed

lemma freshId_gt: "s \<in> set ss \<Longrightarrow> s_id s < freshId ss"
  using freshId_fold [of 0 "map s_id ss"] by (auto simp add: freshId_def)

lemma getStory_run:
  assumes "getStory sid w = (r, w')"
  shows "w' = called (GetStory sid) w"
    and "\<And>s. r = Inr s \<Longrightarrow> find (\<lambda>x. s_id x = sid) (stories w) = Some s"
    and "\<not> faulty w (GetStory sid) \<Longrightarrow> find (\<lambda>x. s_id x = sid) (stories w) = Some s0 \<Longrightarrow> r = Inr s0"
  using assms by (auto simp add: getStory_def split: if_splits option.splits)

lemma newStoryJob_run:
  assumes "newStoryJob sid sp s w = (r, w')"
  shows "tasks w' = tasks w" and "phases w' = phases w" and "faulty w' = faulty w" and "now w' = now w"
    and "\<And>e. r = Inl e \<Longrightarrow> stories w' = stories w"
    and "\<And>c. r = Inr c \<Longrightarrow> stories w' = stories w @ [c] \<and> s_id c = freshId (stories w) \<and>
            s_sprintId c = sp \<and> s_parentId c = sid"
    and "\<not> faulty w (StoryCreate (newStoryPayload sid sp s)) \<Longrightarrow> \<exists>c. r = Inr c"
  using assms
  by (auto simp add: newStoryJob_def Story_create_def Let_def newStoryPayload_def split: if_splits)

lemma phasesJob_run:
  assumes "phasesJob pid w = (r, w')"
  shows "w' = called (GetPhases (openPhasesWhere pid)) w"
    and "\<And>phs. r = Inr phs \<Longrightarrow> phs = filter (\<lambda>p. \<not> p_isDone p \<and> p_projectId p = pid) (phases w)"
    and "\<not> faulty w (GetPhases (openPhasesWhere pid)) \<Longrightarrow> \<exists>phs. r = Inr phs"
  using assms by (auto simp add: phasesJob_def getPhases_def openPhases_filter split: if_splits)

lemma getTasks_run:
  assumes "getTasks (changeTasksWhere sid phs) w = (r, w')"
  shows "w' = called (GetTasks (changeTasksWhere sid phs)) w"
    and "\<And>ts. r = Inr ts \<Longrightarrow> ts = filter (\<lambda>t. t_storyId t = sid \<and> t_phaseId t \<in> p_id ` set phs) (tasks w)"
    and "\<not> faulty w (GetTasks (changeTasksWhere sid phs)) \<Longrightarrow> \<exists>ts. r = Inr ts"
  using assms by (auto simp add: getTasks_def changeTasks_filter split: if_splits)

lemma finalize_new_id:
  assumes "finalizeStorySplit sid c ts w = (Inr d, w')"
  shows "s_id (storyNew d) = s_id c"
proof -
  from finalize_Inr(3) [OF assms] obtain w1
    where "updateNewJob c ts w1 = (Inr (storyNew d), w')" by blast
  from updateNewJob_Inr(1) [OF this] show ?thesis by (auto simp add: find_Some_iff)
qed

lemma changeTasks_effect:
  fixes c :: story and fp :: phase
  defines "upd \<equiv> \<lambda>x. x\<lparr>t_storyId := s_id c,
                          t_phaseId := (if s_sprintId c = 0 then p_id fp else t_phaseId x),
                          t_timeStart := (if s_sprintId c = 0 then None else t_timeStart x)\<rparr>"
  assumes dist: "distinct (map t_id (tasks w))"
    and run: "changeTasks sid c phs w = (r, w')"
    and fp: "firstPhase phs = Some fp"
  shows "\<exists>S. S \<subseteq> t_id ` set (filter (\<lambda>t. t_storyId t = sid \<and> t_phaseId t \<in> p_id ` set phs) (tasks w)) \<and>
             tasks w' = map (\<lambda>x. if t_id x \<in> S then upd x else x) (tasks w) \<and>
             (\<forall>d. r = Inr d \<longrightarrow>
                S = t_id ` set (filter (\<lambda>t. t_storyId t = sid \<and> t_phaseId t \<in> p_id ` set phs) (tasks w)) \<and>
                movedTasks d = map upd (filter (\<lambda>t. t_storyId t = sid \<and> t_phaseId t \<in> p_id ` set phs) (tasks w)) \<and>
                taskCnt d = length (movedTasks d) \<and> s_id (storyNew d) = s_id c) \<and>
             ((\<forall>k. \<not> faulty w k) \<and> (\<exists>s \<in> set (stories w). s_id s = sid) \<and>
              (\<exists>s \<in> set (stories w). s_id s = s_id c) \<longrightarrow> (\<exists>d. r = Inr d))"
proof -
  let ?listed = "filter (\<lambda>t. t_storyId t = sid \<and> t_phaseId t \<in> p_id ` set phs) (tasks w)"
  obtain rt w1 where g: "getTasks (changeTasksWhere sid phs) w = (rt, w1)"
    by (cases "getTasks (changeTasksWhere sid phs) w")
  note gr = getTasks_run [OF g]
  have w1: "tasks w1 = tasks w" "stories w1 = stories w" "faulty w1 = faulty w" by (simp_all add: gr(1))
  show ?thesis
  proof (cases rt)
    case (Inl e)
    with run fp g have "r = Inl e" and "w' = w1" by (simp_all add: changeTasks_def)
    moreover have "\<not> (\<forall>k. \<not> faulty w k)" using gr(3) Inl by auto
    ultimately show ?thesis using w1 by (intro exI [of _ "{}"]) simp
  next
    case (Inr ts)
    with gr(2) have ts: "ts = ?listed" by simp
    obtain rm w2 where m: "async_map (moveTask c fp) ts w1 = (rm, w2)"
      by (cases "async_map (moveTask c fp) ts w1")
    have d1: "distinct (map t_id (tasks w1))" using dist by (simp add: w1)
    have sub: "set ts \<subseteq> set (tasks w1)" by (auto simp add: ts w1)
    have dts: "distinct (map t_id ts)" unfolding ts using dist by (rule distinct_map_filter)
    have "\<exists>S. S \<subseteq> t_id ` set ts \<and>
             tasks w2 = map (\<lambda>x. if t_id x \<in> S then upd x else x) (tasks w1) \<and>
             (\<forall>ys. rm = Inr ys \<longrightarrow> S = t_id ` set ts \<and> ys = map upd ts) \<and>
             ((\<forall>k. \<not> faulty w1 k) \<longrightarrow> (\<exists>ys. rm = Inr ys))"
      unfolding upd_def by (rule moveTasks_effect [OF d1 sub dts m])
    then obtain S
      where S: "S \<subseteq> t_id ` set ts"
        and rows: "tasks w2 = map (\<lambda>x. if t_id x \<in> S then upd x else x) (tasks w1)"
        and res: "\<forall>ys. rm = Inr ys \<longrightarrow> S = t_id ` set ts \<and> ys = map upd ts"
        and tot: "(\<forall>k. \<not> faulty w1 k) \<longrightarrow> (\<exists>ys. rm = Inr ys)" by blast
    have w2: "w2 = snd (async_map (moveTask c fp) ts w1)" using m by simp
    have fr: "stories w2 = stories w" "faulty w2 = faulty w"
      using moveTasks_frame [of c fp ts w1] by (simp_all add: w2 w1)
    show ?thesis
    proof (cases rm)
      case (Inl e)
      with run fp g Inr m have "r = Inl e" and "w' = w2" by (simp_all add: changeTasks_def moveTasks_def)
      moreover have "\<not> (\<forall>k. \<not> faulty w k)" using tot Inl w1 by auto
      ultimately show ?thesis using S rows w1 ts by (intro exI [of _ S]) simp
    next
      case moved: (Inr ys)
      with run fp g Inr m have fin: "finalizeStorySplit sid c ys w2 = (r, w')"
        by (simp add: changeTasks_def moveTasks_def)
      from res moved have Seq: "S = t_id ` set ts" and ys: "ys = map upd ts" by simp_all
      have "tasks w' = tasks w2" using finalize_frame [of sid c ys w2] fin by simp
      then have a: "tasks w' = map (\<lambda>x. if t_id x \<in> S then upd x else x) (tasks w)"
        by (simp add: rows w1)
      have b: "\<forall>d. r = Inr d \<longrightarrow> S = t_id ` set ?listed \<and> movedTasks d = map upd ?listed \<and>
                  taskCnt d = length (movedTasks d) \<and> s_id (storyNew d) = s_id c"
      proof (intro allI impI)
        fix d assume "r = Inr d"
        with fin have f: "finalizeStorySplit sid c ys w2 = (Inr d, w')" by simp
        from finalize_Inr(1,2) [OF f] finalize_new_id [OF f] Seq ys ts
        show "S = t_id ` set ?listed \<and> movedTasks d = map upd ?listed \<and>
                  taskCnt d = length (movedTasks d) \<and> s_id (storyNew d) = s_id c" by simp
      qed
      have c: "(\<forall>k. \<not> faulty w k) \<and> (\<exists>s \<in> set (stories w). s_id s = sid) \<and>
              (\<exists>s \<in> set (stories w). s_id s = s_id c) \<longrightarrow> (\<exists>d. r = Inr d)"
      proof
        assume h: "(\<forall>k. \<not> faulty w k) \<and> (\<exists>s \<in> set (stories w). s_id s = sid) \<and>
              (\<exists>s \<in> set (stories w). s_id s = s_id c)"
        then have "\<forall>k. \<not> faulty w2 k" and "\<exists>s \<in> set (stories w2). s_id s = sid"
          and "\<exists>s \<in> set (stories w2). s_id s = s_id c" by (simp_all add: fr)
        from finalize_ok [OF this, of ys] fin show "\<exists>d. r = Inr d" by simp
      qed
      from a b c S ts show ?thesis by (intro exI [of _ S]) simp
    qed
  qed
qed

lemma splitStory_unfold:
  assumes "newStoryJob sid sp s w = (r1, w1)" and "phasesJob pid w1 = (r2, w2)"
  shows "splitStory sid sp pid s w =
     (case r1 of Inl e \<Rightarrow> (Inl e, w2)
      | Inr created \<Rightarrow> (case r2 of Inl e \<Rightarrow> (Inl e, w2)
            | Inr phs \<Rightarrow> (if length phs > 0 then changeTasks sid created phs w2
                          else finalizeStorySplit sid created [] w2)))"
  using assms by (simp add: splitStory_def)

lemma split_effect:
  fixes sid sp pid :: int and w :: world and fp :: phase
  defines "phs \<equiv> filter (\<lambda>p. \<not> p_isDone p \<and> p_projectId p = pid) (phases w)"
  defines "listed \<equiv> filter (\<lambda>t. t_storyId t = sid \<and> t_phaseId t \<in> p_id ` set phs) (tasks w)"
  defines "upd \<equiv> \<lambda>x. x\<lparr>t_storyId := freshId (stories w),
                          t_phaseId := (if sp = 0 then p_id fp else t_phaseId x),
                          t_timeStart := (if sp = 0 then None else t_timeStart x)\<rparr>"
  assumes dist: "distinct (map t_id (tasks w))"
    and run: "split sid sp pid w = (r, w')"
    and fp: "phs = [] \<or> firstPhase phs = Some fp"
  shows "\<exists>S. S \<subseteq> t_id ` set listed \<and>
             tasks w' = map (\<lambda>x. if t_id x \<in> S then upd x else x) (tasks w) \<and>
             (\<forall>d. r = Inr d \<longrightarrow> S = t_id ` set listed \<and> movedTasks d = map upd listed \<and>
                taskCnt d = length (movedTasks d) \<and> s_id (storyNew d) = freshId (stories w)) \<and>
             ((\<forall>k. \<not> faulty w k) \<and> (\<exists>s \<in> set (stories w). s_id s = sid) \<longrightarrow> (\<exists>d. r = Inr d))"
proof -
  have trivial: ?thesis if "tasks w' = tasks w" and "\<And>d. r = Inr d \<Longrightarrow> listed = [] \<and> movedTasks d = [] \<and> taskCnt d = 0 \<and> s_id (storyNew d) = freshId (stories w)"
    and "(\<forall>k. \<not> faulty w k) \<and> (\<exists>s \<in> set (stories w). s_id s = sid) \<longrightarrow> (\<exists>d. r = Inr d)"
    using that by (intro exI [of _ "{}"]) auto
  obtain r0 w0 where g: "getStory sid w = (r0, w0)" by (cases "getStory sid w")
  note gr = getStory_run [OF g]
  have w0: "tasks w0 = tasks w" "stories w0 = stories w" "faulty w0 = faulty w" "phases w0 = phases w"
    by (simp_all add: gr(1))
  show ?thesis
  proof (cases r0)
    case (Inl e)
    with run g have "r = Inl e" and "w' = w0" by (simp_all add: split_def)
    moreover have "\<not> ((\<forall>k. \<not> faulty w k) \<and> (\<exists>s \<in> set (stories w). s_id s = sid))"
    proof
      assume h: "(\<forall>k. \<not> faulty w k) \<and> (\<exists>s \<in> set (stories w). s_id s = sid)"
      with find_exists [of "stories w" "\<lambda>x. s_id x = sid"]
      obtain s0 where "find (\<lambda>x. s_id x = sid) (stories w) = Some s0" by blast
      with gr(3) h Inl show False by auto
    qed
    ultimately show ?thesis using w0 by (intro trivial) simp_all
  next
    case (Inr s)
    from gr(2) [OF Inr] have sin: "s \<in> set (stories w)" and sid: "s_id s = sid"
      by (auto simp add: find_Some_iff)
    obtain r1 w1 where n: "newStoryJob sid sp s w0 = (r1, w1)" by (cases "newStoryJob sid sp s w0")
    note nr = newStoryJob_run [OF n]
    obtain r2 w2 where p: "phasesJob pid w1 = (r2, w2)" by (cases "phasesJob pid w1")
    note pr = phasesJob_run [OF p]
    have w2: "tasks w2 = tasks w" "faulty w2 = faulty w" "stories w2 = stories w1" "phases w2 = phases w"
      by (simp_all add: pr(1) nr w0)
    from run g Inr have run': "splitStory sid sp pid s w0 = (r, w')" by (simp add: split_def)
    note un = run' [unfolded splitStory_unfold [OF n p]]
    show ?thesis
    proof (cases r1)
      case (Inl e)
      with un have "r = Inl e" and "w' = w2" by simp_all
      moreover have "\<not> (\<forall>k. \<not> faulty w k)" using nr(7) Inl w0 by auto
      ultimately show ?thesis using w2 by (intro trivial) simp_all
    next
      case created: (Inr c)
      from nr(6) [OF created] have st1: "stories w1 = stories w @ [c]"
        and cid: "s_id c = freshId (stories w)" and csp: "s_sprintId c = sp" by (simp_all add: w0)
      show ?thesis
      proof (cases r2)
        case (Inl e)
        with un created have "r = Inl e" and "w' = w2" by simp_all
        moreover have "\<not> (\<forall>k. \<not> faulty w k)" using pr(3) Inl nr(3) w0 by auto
        ultimately show ?thesis using w2 by (intro trivial) simp_all
      next
        case (Inr phs')
        from pr(2) [OF Inr] have phs': "phs' = phs" by (simp add: phs_def nr w0)
        have ex_old: "\<exists>x \<in> set (stories w2). s_id x = sid" using sin sid by (auto simp add: w2 st1)
        have ex_new: "\<exists>x \<in> set (stories w2). s_id x = s_id c" by (simp add: w2 st1)
        show ?thesis
        proof (cases "phs = []")
          case True
          with un created Inr phs' have fin: "finalizeStorySplit sid c [] w2 = (r, w')" by simp
          have a: "tasks w' = tasks w" using finalize_frame [of sid c "[]" w2] fin by (simp add: w2)
          have b: "listed = [] \<and> movedTasks d = [] \<and> taskCnt d = 0 \<and> s_id (storyNew d) = freshId (stories w)"
            if "r = Inr d" for d
          proof -
            from that fin have f: "finalizeStorySplit sid c [] w2 = (Inr d, w')" by simp
            from finalize_Inr(1,2) [OF f] finalize_new_id [OF f] cid True
            show ?thesis by (simp add: listed_def)
          qed
          have c: "(\<forall>k. \<not> faulty w k) \<and> (\<exists>s \<in> set (stories w). s_id s = sid) \<longrightarrow> (\<exists>d. r = Inr d)"
          proof
            assume "(\<forall>k. \<not> faulty w k) \<and> (\<exists>s \<in> set (stories w). s_id s = sid)"
            then have "\<forall>k. \<not> faulty w2 k" by (simp add: w2)
            from finalize_ok [OF this ex_old ex_new, of "[]"] fin show "\<exists>d. r = Inr d" by simp
          qed
          from a b c show ?thesis by (rule trivial)
        next
          case False
          with fp have fp': "firstPhase phs = Some fp" by simp
          from False un created Inr phs' have ch: "changeTasks sid c phs w2 = (r, w')" by simp
          have d2: "distinct (map t_id (tasks w2))" using dist by (simp add: w2)
          have u: "upd = (\<lambda>x. x\<lparr>t_storyId := s_id c,
                          t_phaseId := (if s_sprintId c = 0 then p_id fp else t_phaseId x),
                          t_timeStart := (if s_sprintId c = 0 then None else t_timeStart x)\<rparr>)"
            by (simp add: upd_def cid csp)
          have "\<exists>S. S \<subseteq> t_id ` set (filter (\<lambda>t. t_storyId t = sid \<and> t_phaseId t \<in> p_id ` set phs) (tasks w2)) \<and>
             tasks w' = map (\<lambda>x. if t_id x \<in> S then upd x else x) (tasks w2) \<and>
             (\<forall>d. r = Inr d \<longrightarrow>
                S = t_id ` set (filter (\<lambda>t. t_storyId t = sid \<and> t_phaseId t \<in> p_id ` set phs) (tasks w2)) \<and>
                movedTasks d = map upd (filter (\<lambda>t. t_storyId t = sid \<and> t_phaseId t \<in> p_id ` set phs) (tasks w2)) \<and>
                taskCnt d = length (movedTasks d) \<and> s_id (storyNew d) = s_id c) \<and>
             ((\<forall>k. \<not> faulty w2 k) \<and> (\<exists>s \<in> set (stories w2). s_id s = sid) \<and>
              (\<exists>s \<in> set (stories w2). s_id s = s_id c) \<longrightarrow> (\<exists>d. r = Inr d))"
            unfolding u by (rule changeTasks_effect [OF d2 ch fp'])
          then show ?thesis
          proof (elim exE conjE)
            fix S
            assume S: "S \<subseteq> t_id ` set (filter (\<lambda>t. t_storyId t = sid \<and> t_phaseId t \<in> p_id ` set phs) (tasks w2))"
              and rows: "tasks w' = map (\<lambda>x. if t_id x \<in> S then upd x else x) (tasks w2)"
              and res: "\<forall>d. r = Inr d \<longrightarrow>
                  S = t_id ` set (filter (\<lambda>t. t_storyId t = sid \<and> t_phaseId t \<in> p_id ` set phs) (tasks w2)) \<and>
                  movedTasks d = map upd (filter (\<lambda>t. t_storyId t = sid \<and> t_phaseId t \<in> p_id ` set phs) (tasks w2)) \<and>
                  taskCnt d = length (movedTasks d) \<and> s_id (storyNew d) = s_id c"
              and tot: "(\<forall>k. \<not> faulty w2 k) \<and> (\<exists>s \<in> set (stories w2). s_id s = sid) \<and>
                  (\<exists>s \<in> set (stories w2). s_id s = s_id c) \<longrightarrow> (\<exists>d. r = Inr d)"
            have tw: "tasks w2 = tasks w" by (rule w2(1))
            have a: "S \<subseteq> t_id ` set listed" using S unfolding listed_def tw .
            have b: "tasks w' = map (\<lambda>x. if t_id x \<in> S then upd x else x) (tasks w)"
              using rows unfolding tw .
            have c: "\<forall>d. r = Inr d \<longrightarrow> S = t_id ` set listed \<and> movedTasks d = map upd listed \<and>
                  taskCnt d = length (movedTasks d) \<and> s_id (storyNew d) = freshId (stories w)"
              using res unfolding listed_def tw cid .
            have d: "(\<forall>k. \<not> faulty w k) \<and> (\<exists>s \<in> set (stories w). s_id s = sid) \<longrightarrow> (\<exists>d. r = Inr d)"
            proof
              assume "(\<forall>k. \<not> faulty w k) \<and> (\<exists>s \<in> set (stories w). s_id s = sid)"
              then have "\<forall>k. \<not> faulty w2 k" by (simp add: w2)
              with tot ex_old ex_new show "\<exists>d. r = Inr d" by (elim impE) (intro conjI)
            qed
            show ?thesis by (rule exI [of _ S]) (intro conjI a b c d)
          qed

        qed
      qed
    qed
  qed
qed

text \<open>
  Claim C1. A split into the backlog (destination sprint 0) whose fetch of open phases
  is not empty: \<open>firstPhase\<close> is a fetched phase of minimal order, and every task row the
  split changes is stored with no start time and with that phase's id, whatever the row
  held before; the rows changed belong to the tasks fetched for the move, and on success
  all of these are changed and returned. The split succeeds when no call fails and the
  story exists. Task ids are distinct, as a primary key is.
\<close>

theorem C1_backlog_split:
  fixes storyId projectId :: int and w :: world
  defines "phs \<equiv> find_where phase_field (openPhasesWhere projectId) (phases w)"
  defines "listed \<equiv> find_where task_field (changeTasksWhere storyId phs) (tasks w)"
  assumes "distinct (map t_id (tasks w))"
    and "split storyId 0 projectId w = (r, w')"
    and "phs \<noteq> []"
  shows "\<exists>fp. firstPhase phs = Some fp \<and> fp \<in> set phs \<and> (\<forall>p \<in> set phs. p_order fp \<le> p_order p) \<and>
           (\<exists>S. S \<subseteq> t_id ` set listed \<and>
              tasks w' = map (\<lambda>x. if t_id x \<in> S
                                   then x\<lparr>t_storyId := freshId (stories w), t_phaseId := p_id fp,
                                          t_timeStart := None\<rparr>
                                   else x) (tasks w) \<and>
              (\<forall>d. r = Inr d \<longrightarrow>
                 S = t_id ` set listed \<and>
                 movedTasks d = map (\<lambda>x. x\<lparr>t_storyId := freshId (stories w), t_phaseId := p_id fp,
                                             t_timeStart := None\<rparr>) listed)) \<and>
           ((\<forall>k. \<not> faulty w k) \<and> (\<exists>s \<in> set (stories w). s_id s = storyId) \<longrightarrow> (\<exists>d. r = Inr d))"
proof -
  from firstPhase_min [OF assms(5)] obtain fp where fp: "firstPhase phs = Some fp"
    and mem: "fp \<in> set phs" and least: "\<forall>p \<in> set phs. p_order fp \<le> p_order p" by blast
  have phs: "phs = filter (\<lambda>p. \<not> p_isDone p \<and> p_projectId p = projectId) (phases w)"
    by (simp add: phs_def openPhases_filter)
  have listed: "listed = filter (\<lambda>t. t_storyId t = storyId \<and> t_phaseId t \<in> p_id ` set phs) (tasks w)"
    by (simp add: listed_def changeTasks_filter)
  have fp': "filter (\<lambda>p. \<not> p_isDone p \<and> p_projectId p = projectId) (phases w) = [] \<or>
             firstPhase (filter (\<lambda>p. \<not> p_isDone p \<and> p_projectId p = projectId) (phases w)) = Some fp"
    using fp by (simp add: phs)
  from split_effect [OF assms(3) assms(4) fp', folded phs, folded listed]
  have "\<exists>S. S \<subseteq> t_id ` set listed \<and>
              tasks w' = map (\<lambda>x. if t_id x \<in> S
                                   then x\<lparr>t_storyId := freshId (stories w), t_phaseId := p_id fp,
                                          t_timeStart := None\<rparr>
                                   else x) (tasks w) \<and>
              (\<forall>d. r = Inr d \<longrightarrow>
                 S = t_id ` set listed \<and>
                 movedTasks d = map (\<lambda>x. x\<lparr>t_storyId := freshId (stories w), t_phaseId := p_id fp,
                                             t_timeStart := None\<rparr>) listed \<and>
                 taskCnt d = length (movedTasks d) \<and> s_id (storyNew d) = freshId (stories w)) \<and>
              ((\<forall>k. \<not> faulty w k) \<and> (\<exists>s \<in> set (stories w). s_id s = storyId) \<longrightarrow> (\<exists>d. r = Inr d))"
    by (simp cong: if_cong)
  then obtain S where a: "S \<subseteq> t_id ` set listed"
    and b: "tasks w' = map (\<lambda>x. if t_id x \<in> S
                                   then x\<lparr>t_storyId := freshId (stories w), t_phaseId := p_id fp,
                                          t_timeStart := None\<rparr>
                                   else x) (tasks w)"
    and c: "\<forall>d. r = Inr d \<longrightarrow>
                 S = t_id ` set listed \<and>
                 movedTasks d = map (\<lambda>x. x\<lparr>t_storyId := freshId (stories w), t_phaseId := p_id fp,
                                             t_timeStart := None\<rparr>) listed \<and>
                 taskCnt d = length (movedTasks d) \<and> s_id (storyNew d) = freshId (stories w)"
    and d: "(\<forall>k. \<not> faulty w k) \<and> (\<exists>s \<in> set (stories w). s_id s = storyId) \<longrightarrow> (\<exists>d. r = Inr d)"
    by (elim exE conjE)
  from c have c': "\<forall>d. r = Inr d \<longrightarrow>
                 S = t_id ` set listed \<and>
                 movedTasks d = map (\<lambda>x. x\<lparr>t_storyId := freshId (stories w), t_phaseId := p_id fp,
                                             t_timeStart := None\<rparr>) listed" by simp
  show ?thesis
    by (rule exI [of _ fp], intro conjI fp mem least d, rule exI [of _ S], intro conjI a b c')
qed

text \<open>
  Claim C2. A split into a sprint other than the backlog: every task row the split
  changes differs from the row before only in \<open>storyId\<close>, which is the id of the new
  story, so phase, start time and every other field stay; the rows changed belong to the
  tasks fetched for the move, and on success all of these are changed and returned.
  Task ids are distinct, as a primary key is.
\<close>

theorem C2_sprint_split:
  fixes storyId sprintId projectId :: int and w :: world
  defines "phs \<equiv> find_where phase_field (openPhasesWhere projectId) (phases w)"
  defines "listed \<equiv> find_where task_field (changeTasksWhere storyId phs) (tasks w)"
  assumes "distinct (map t_id (tasks w))"
    and "split storyId sprintId projectId w = (r, w')"
    and "sprintId \<noteq> 0"
  shows "\<exists>S. S \<subseteq> t_id ` set listed \<and>
           tasks w' = map (\<lambda>x. if t_id x \<in> S then x\<lparr>t_storyId := freshId (stories w)\<rparr> else x) (tasks w) \<and>
           (\<forall>d. r = Inr d \<longrightarrow>
              S = t_id ` set listed \<and>
              movedTasks d = map (\<lambda>x. x\<lparr>t_storyId := freshId (stories w)\<rparr>) listed \<and>
              s_id (storyNew d) = freshId (stories w)) \<and>
           ((\<forall>k. \<not> faulty w k) \<and> (\<exists>s \<in> set (stories w). s_id s = storyId) \<longrightarrow> (\<exists>d. r = Inr d))"
proof -
  have phs: "phs = filter (\<lambda>p. \<not> p_isDone p \<and> p_projectId p = projectId) (phases w)"
    by (simp add: phs_def openPhases_filter)
  have listed: "listed = filter (\<lambda>t. t_storyId t = storyId \<and> t_phaseId t \<in> p_id ` set phs) (tasks w)"
    by (simp add: listed_def changeTasks_filter)
  obtain fp where "phs = [] \<or> firstPhase phs = Some fp"
    using firstPhase_min [of phs] by blast
  then have fp': "filter (\<lambda>p. \<not> p_isDone p \<and> p_projectId p = projectId) (phases w) = [] \<or>
             firstPhase (filter (\<lambda>p. \<not> p_isDone p \<and> p_projectId p = projectId) (phases w)) = Some fp"
    by (simp add: phs)
  from split_effect [OF assms(3) assms(4) fp', folded phs, folded listed] assms(5)
  have "\<exists>S. S \<subseteq> t_id ` set listed \<and>
           tasks w' = map (\<lambda>x. if t_id x \<in> S then x\<lparr>t_storyId := freshId (stories w)\<rparr> else x) (tasks w) \<and>
           (\<forall>d. r = Inr d \<longrightarrow>
              S = t_id ` set listed \<and>
              movedTasks d = map (\<lambda>x. x\<lparr>t_storyId := freshId (stories w)\<rparr>) listed \<and>
              taskCnt d = length (movedTasks d) \<and>
              s_id (storyNew d) = freshId (stories w)) \<and>
           ((\<forall>k. \<not> faulty w k) \<and> (\<exists>s \<in> set (stories w). s_id s = storyId) \<longrightarrow> (\<exists>d. r = Inr d))"
    by (simp cong: if_cong)
  then obtain S where a: "S \<subseteq> t_id ` set listed"
    and b: "tasks w' = map (\<lambda>x. if t_id x \<in> S then x\<lparr>t_storyId := freshId (stories w)\<rparr> else x) (tasks w)"
    and c: "\<forall>d. r = Inr d \<longrightarrow>
              S = t_id ` set listed \<and>
              movedTasks d = map (\<lambda>x. x\<lparr>t_storyId := freshId (stories w)\<rparr>) listed \<and>
              taskCnt d = length (movedTasks d) \<and>
              s_id (storyNew d) = freshId (stories w)"
    and d: "(\<forall>k. \<not> faulty w k) \<and> (\<exists>s \<in> set (stories w). s_id s = storyId) \<longrightarrow> (\<exists>d. r = Inr d)"
    by (elim exE conjE)
  from c have c': "\<forall>d. r = Inr d \<longrightarrow>
              S = t_id ` set listed \<and>
              movedTasks d = map (\<lambda>x. x\<lparr>t_storyId := freshId (stories w)\<rparr>) listed \<and>
              s_id (storyNew d) = freshId (stories w)" by simp
  show ?thesis by (rule exI [of _ S], intro conjI a b c' d)
qed

subsection \<open>The calls a split makes\<close>

lemma trace_async_map:
  assumes "\<And>x v. set (trace v) \<subseteq> set (trace (snd (f x v)))"
  shows "set (trace w) \<subseteq> set (trace (snd (async_map f xs w)))"
proof (induction xs arbitrary: w)
  case Nil
  then show ?case by simp
next
  case (Cons x xs)
  obtain r1 w1 where j: "f x w = (r1, w1)" by (cases "f x w")
  obtain rs w2 where m: "async_map f xs w1 = (rs, w2)" by (cases "async_map f xs w1")
  have "snd (async_map f (x # xs) w) = w2" using j m by (simp split: sum.splits)
  moreover have "set (trace w) \<subseteq> set (trace w1)" using assms [of w x] j by simp
  moreover have "set (trace w1) \<subseteq> set (trace w2)" using Cons.IH [of w1] m by simp
  ultimately show ?case by simp
qed

lemma trace_moveTask: "set (trace w) \<subseteq> set (trace (snd (moveTask sn fp t w)))"
  by (auto simp add: moveTask_def getTask_def Task_save_def Let_def split: option.splits)

lemma trace_updateOldJob: "set (trace w) \<subseteq> set (trace (snd (updateOldJob sid w)))"
  by (auto simp add: updateOldJob_def Story_update_def Let_def split: list.splits)

lemma trace_updateNewJob: "set (trace w) \<subseteq> set (trace (snd (updateNewJob c ts w)))"
  by (auto simp add: updateNewJob_def Story_update_def Let_def split: list.splits)

lemma trace_finalize: "set (trace w) \<subseteq> set (trace (snd (finalizeStorySplit sid c ts w)))"
proof -
  obtain r1 w1 where a: "updateOldJob sid w = (r1, w1)" by (cases "updateOldJob sid w")
  obtain r2 w2 where b: "updateNewJob c ts w1 = (r2, w2)" by (cases "updateNewJob c ts w1")
  have "snd (finalizeStorySplit sid c ts w) = w2"
    by (simp add: finalize_unfold [OF a b] split: sum.splits)
  moreover have "set (trace w) \<subseteq> set (trace w1)" using trace_updateOldJob [of w sid] a by simp
  moreover have "set (trace w1) \<subseteq> set (trace w2)" using trace_updateNewJob [of w1 c ts] b by simp
  ultimately show ?thesis by simp
qed

lemma trace_changeTasks: "set (trace w) \<subseteq> set (trace (snd (changeTasks sid c phs w)))"
proof (cases "firstPhase phs")
  case None
  then show ?thesis by (simp add: changeTasks_def)
next
  case (Some fp)
  obtain rt w1 where g: "getTasks (changeTasksWhere sid phs) w = (rt, w1)"
    by (cases "getTasks (changeTasksWhere sid phs) w")
  have t1: "set (trace w) \<subseteq> set (trace w1)" using getTasks_run(1) [OF g] by auto
  show ?thesis
  proof (cases rt)
    case (Inl e)
    then show ?thesis using g Some t1 by (simp add: changeTasks_def)
  next
    case (Inr ts)
    obtain rm w2 where m: "async_map (moveTask c fp) ts w1 = (rm, w2)"
      by (cases "async_map (moveTask c fp) ts w1")
    have t2: "set (trace w1) \<subseteq> set (trace w2)"
      using trace_async_map [of "moveTask c fp" w1 ts, OF trace_moveTask] m by simp
    show ?thesis
    proof (cases rm)
      case (Inl e)
      then show ?thesis using g Some Inr m t1 t2 by (simp add: changeTasks_def moveTasks_def)
    next
      case moved: (Inr ys)
      have "snd (changeTasks sid c phs w) = snd (finalizeStorySplit sid c ys w2)"
        using g Some Inr m moved by (simp add: changeTasks_def moveTasks_def)
      then show ?thesis using t1 t2 trace_finalize [of w2 sid c ys] by auto
    qed
  qed
qed

lemma trace_splitStory:
  "StoryCreate (newStoryPayload sid sp s) \<in> set (trace (snd (splitStory sid sp pid s w)))"
proof -
  obtain r1 w1 where n: "newStoryJob sid sp s w = (r1, w1)" by (cases "newStoryJob sid sp s w")
  obtain r2 w2 where p: "phasesJob pid w1 = (r2, w2)" by (cases "phasesJob pid w1")
  have "StoryCreate (newStoryPayload sid sp s) \<in> set (trace w1)"
    using n by (auto simp add: newStoryJob_def Story_create_def Let_def split: if_splits)
  then have in2: "StoryCreate (newStoryPayload sid sp s) \<in> set (trace w2)"
    using phasesJob_run(1) [OF p] by simp
  have a: "StoryCreate (newStoryPayload sid sp s) \<in> set (trace (snd (changeTasks sid c phs w2)))" for c phs
    using in2 trace_changeTasks [of w2 sid c phs] by blast
  have b: "StoryCreate (newStoryPayload sid sp s) \<in> set (trace (snd (finalizeStorySplit sid c ts w2)))" for c ts
    using in2 trace_finalize [of w2 sid c ts] by blast
  show ?thesis
    unfolding splitStory_unfold [OF n p]
    by (simp add: a b in2 split: sum.splits)
qed

subsection \<open>The stored clone\<close>

text \<open>
  The later stages of a split patch stories and save tasks; they leave the id, the title,
  the description, the project, the sprint and the parent of every stored story as they
  are, and add or remove no story.
\<close>

lemma update_jobs_keep:
  "map (\<lambda>x. (s_id x, s_title x, s_description x, s_projectId x, s_sprintId x, s_parentId x))
       (stories (snd (updateOldJob sid w))) =
   map (\<lambda>x. (s_id x, s_title x, s_description x, s_projectId x, s_sprintId x, s_parentId x)) (stories w)"
  "map (\<lambda>x. (s_id x, s_title x, s_description x, s_projectId x, s_sprintId x, s_parentId x))
       (stories (snd (updateNewJob c ts w))) =
   map (\<lambda>x. (s_id x, s_title x, s_description x, s_projectId x, s_sprintId x, s_parentId x)) (stories w)"
  by (simp_all add: updateOldJob_def updateNewJob_def Story_update_def Let_def comp_def apply_patch_def
      split: list.splits cong: if_cong)

lemma finalize_keeps:
  "map (\<lambda>x. (s_id x, s_title x, s_description x, s_projectId x, s_sprintId x, s_parentId x))
       (stories (snd (finalizeStorySplit sid c ts w))) =
   map (\<lambda>x. (s_id x, s_title x, s_description x, s_projectId x, s_sprintId x, s_parentId x)) (stories w)"
proof -
  obtain r1 w1 where a: "updateOldJob sid w = (r1, w1)" by (cases "updateOldJob sid w")
  obtain r2 w2 where b: "updateNewJob c ts w1 = (r2, w2)" by (cases "updateNewJob c ts w1")
  have "snd (finalizeStorySplit sid c ts w) = w2"
    by (simp add: finalize_unfold [OF a b] split: sum.splits)
  moreover have "w2 = snd (updateNewJob c ts w1)" using b by simp
  moreover have "w1 = snd (updateOldJob sid w)" using a by simp
  ultimately show ?thesis by (simp only: update_jobs_keep)
qed

lemma changeTasks_keeps:
  "map (\<lambda>x. (s_id x, s_title x, s_description x, s_projectId x, s_sprintId x, s_parentId x))
       (stories (snd (changeTasks sid c phs w))) =
   map (\<lambda>x. (s_id x, s_title x, s_description x, s_projectId x, s_sprintId x, s_parentId x)) (stories w)"
proof (cases "firstPhase phs")
  case None
  then show ?thesis by (simp add: changeTasks_def)
next
  case (Some fp)
  obtain rt w1 where g: "getTasks (changeTasksWhere sid phs) w = (rt, w1)"
    by (cases "getTasks (changeTasksWhere sid phs) w")
  have s1: "stories w1 = stories w" using getTasks_run(1) [OF g] by simp
  show ?thesis
  proof (cases rt)
    case (Inl e)
    then show ?thesis using g Some s1 by (simp add: changeTasks_def)
  next
    case (Inr ts)
    obtain rm w2 where m: "async_map (moveTask c fp) ts w1 = (rm, w2)"
      by (cases "async_map (moveTask c fp) ts w1")
    have s2: "stories w2 = stories w" using moveTasks_frame [of c fp ts w1] m s1 by simp
    show ?thesis
    proof (cases rm)
      case (Inl e)
      then show ?thesis using g Some Inr m s2 by (simp add: changeTasks_def moveTasks_def)
    next
      case moved: (Inr ys)
      have "snd (changeTasks sid c phs w) = snd (finalizeStorySplit sid c ys w2)"
        using g Some Inr m moved by (simp add: changeTasks_def moveTasks_def)
      then show ?thesis by (simp only: finalize_keeps s2)
    qed
  qed
qed

lemma newStoryJob_created:
  assumes "\<not> faulty w (StoryCreate (newStoryPayload sid sp s))"
  shows "newStoryJob sid sp s w =
     (Inr \<lparr>s_title = s_title s, s_description = s_description s, s_projectId = s_projectId s,
           s_sprintId = sp, s_parentId = sid, s_isDone = s_isDone s,
           s_id = freshId (stories w), s_createdAt = now w, s_updatedAt = now w,
           s_timeStart = None, s_timeEnd = None\<rparr>,
      called (PublishStoryCreate
           \<lparr>s_title = s_title s, s_description = s_description s, s_projectId = s_projectId s,
            s_sprintId = sp, s_parentId = sid, s_isDone = s_isDone s,
            s_id = freshId (stories w), s_createdAt = now w, s_updatedAt = now w,
            s_timeStart = None, s_timeEnd = None\<rparr>)
        (called (StoryCreate (newStoryPayload sid sp s))
          (w\<lparr>stories := stories w @
             [\<lparr>s_title = s_title s, s_description = s_description s, s_projectId = s_projectId s,
               s_sprintId = sp, s_parentId = sid, s_isDone = s_isDone s,
               s_id = freshId (stories w), s_createdAt = now w, s_updatedAt = now w,
               s_timeStart = None, s_timeEnd = None\<rparr>]\<rparr>)))"
  using assms by (simp add: newStoryJob_def Story_create_def Let_def newStoryPayload_def deleteFields_def)

lemma split_keeps_new_story:
  assumes found: "find (\<lambda>x. s_id x = sid) (stories w) = Some s"
    and nf1: "\<not> faulty w (GetStory sid)"
    and nf2: "\<not> faulty w (StoryCreate (newStoryPayload sid sp s))"
  shows "map (\<lambda>x. (s_id x, s_title x, s_description x, s_projectId x, s_sprintId x, s_parentId x))
           (stories (snd (split sid sp pid w))) =
         map (\<lambda>x. (s_id x, s_title x, s_description x, s_projectId x, s_sprintId x, s_parentId x)) (stories w) @
           [(freshId (stories w), s_title s, s_description s, s_projectId s, sp, sid)]"
proof -
  let ?K = "\<lambda>x. (s_id x, s_title x, s_description x, s_projectId x, s_sprintId x, s_parentId x)"
  define w0 where "w0 = called (GetStory sid) w"
  have g: "getStory sid w = (Inr s, w0)" using found nf1 by (simp add: getStory_def w0_def)
  have nf2': "\<not> faulty w0 (StoryCreate (newStoryPayload sid sp s))" using nf2 by (simp add: w0_def)
  obtain r1 w1 where n: "newStoryJob sid sp s w0 = (r1, w1)" by (cases "newStoryJob sid sp s w0")
  from n newStoryJob_created [OF nf2'] obtain c where r1: "r1 = Inr c"
    and st1: "map ?K (stories w1) = map ?K (stories w) @ [(freshId (stories w), s_title s, s_description s, s_projectId s, sp, sid)]"
    by (auto simp add: w0_def)
  obtain r2 w2 where p: "phasesJob pid w1 = (r2, w2)" by (cases "phasesJob pid w1")
  have st2: "stories w2 = stories w1" using phasesJob_run(1) [OF p] by simp
  have "map ?K (stories (snd (splitStory sid sp pid s w0))) = map ?K (stories w2)"
    unfolding splitStory_unfold [OF n p] r1
    by (cases r2) (simp_all add: changeTasks_keeps finalize_keeps)
  then show ?thesis by (simp add: split_def g st2 st1)
qed

lemma split_Inr_finalize:
  assumes "split sid sp pid w = (Inr d, w')"
  shows "\<exists>s c ts w2. find (\<lambda>x. s_id x = sid) (stories w) = Some s \<and> \<not> faulty w (GetStory sid) \<and>
           \<not> faulty w (StoryCreate (newStoryPayload sid sp s)) \<and>
           s_id c = freshId (stories w) \<and> finalizeStorySplit sid c ts w2 = (Inr d, w')"
proof -
  obtain r0 w0 where g: "getStory sid w = (r0, w0)" by (cases "getStory sid w")
  from assms g obtain s where r0: "r0 = Inr s" and run: "splitStory sid sp pid s w0 = (Inr d, w')"
    by (cases r0) (simp_all add: split_def)
  from g r0 have found: "find (\<lambda>x. s_id x = sid) (stories w) = Some s" and nf1: "\<not> faulty w (GetStory sid)"
    and w0: "w0 = called (GetStory sid) w"
    by (auto simp add: getStory_def split: if_splits option.splits)
  obtain r1 w1 where n: "newStoryJob sid sp s w0 = (r1, w1)" by (cases "newStoryJob sid sp s w0")
  obtain r2 w2 where p: "phasesJob pid w1 = (r2, w2)" by (cases "phasesJob pid w1")
  note un = run [unfolded splitStory_unfold [OF n p]]
  from un obtain c where r1: "r1 = Inr c" by (cases r1) simp_all
  from un r1 obtain phs where r2: "r2 = Inr phs" by (cases r2) simp_all
  from newStoryJob_run(6) [OF n r1] have cid: "s_id c = freshId (stories w)" by (simp add: w0)
  have nf2: "\<not> faulty w (StoryCreate (newStoryPayload sid sp s))"
    using n r1 by (auto simp add: newStoryJob_def Story_create_def w0 split: if_splits)
  have "\<exists>ts w3. finalizeStorySplit sid c ts w3 = (Inr d, w')"
  proof (cases "phs = []")
    case True
    with un r1 r2 show ?thesis by auto
  next
    case False
    with un r1 r2 have ch: "changeTasks sid c phs w2 = (Inr d, w')" by simp
    then show ?thesis
      by (auto simp add: changeTasks_def split: option.splits prod.splits sum.splits)
  qed
  with found nf1 nf2 cid show ?thesis by blast
qed

text \<open>
  Claim C7. The entity handed to \<^verbatim>\<open>Story.create\<close> is the fetched story without \<^verbatim>\<open>id\<close>,
  \<^verbatim>\<open>createdAt\<close>, \<^verbatim>\<open>updatedAt\<close>, \<^verbatim>\<open>timeStart\<close> and \<^verbatim>\<open>timeEnd\<close>, with \<open>sprintId\<close> the
  destination sprint and \<open>parentId\<close> the source story id, every other field as in the
  source story. The clone step appends to the story table one story with these fields
  under a fresh id and publishes its creation; when the create fails it stores nothing.
  A split that fetched the story makes that create call, and when the create does not
  fail the story table after the split is the table before it, row by row in id, title,
  description, project, sprint and parent, followed by one story with the fresh id, the
  title, description and project of the source story, the destination sprint and the
  source story id as parent. The new story that a successful split returns is stored and
  has these fields.
\<close>

theorem C7_clone_payload:
  "newStoryPayload storyId sprintId s =
     \<lparr>s_title = s_title s, s_description = s_description s, s_projectId = s_projectId s,
      s_sprintId = sprintId, s_parentId = storyId, s_isDone = s_isDone s\<rparr> \<and>
   (\<not> faulty w (StoryCreate (newStoryPayload storyId sprintId s)) \<longrightarrow>
      (\<exists>c w1. newStoryJob storyId sprintId s w = (Inr c, w1) \<and>
         c = \<lparr>s_title = s_title s, s_description = s_description s, s_projectId = s_projectId s,
              s_sprintId = sprintId, s_parentId = storyId, s_isDone = s_isDone s,
              s_id = freshId (stories w), s_createdAt = now w, s_updatedAt = now w,
              s_timeStart = None, s_timeEnd = None\<rparr> \<and>
         stories w1 = stories w @ [c] \<and>
         trace w1 = trace w @ [StoryCreate (newStoryPayload storyId sprintId s), PublishStoryCreate c])) \<and>
   (faulty w (StoryCreate (newStoryPayload storyId sprintId s)) \<longrightarrow>
      (\<exists>w1. newStoryJob storyId sprintId s w =
               (Inl (PersistenceError (StoryCreate (newStoryPayload storyId sprintId s))), w1) \<and>
         stories w1 = stories w \<and>
         trace w1 = trace w @ [StoryCreate (newStoryPayload storyId sprintId s)])) \<and>
   (\<not> faulty w (GetStory storyId) \<and> find (\<lambda>x. s_id x = storyId) (stories w) = Some s \<longrightarrow>
      StoryCreate (newStoryPayload storyId sprintId s)
        \<in> set (trace (snd (split storyId sprintId projectId w)))) \<and>
   (\<not> faulty w (GetStory storyId) \<and> find (\<lambda>x. s_id x = storyId) (stories w) = Some s \<and>
    \<not> faulty w (StoryCreate (newStoryPayload storyId sprintId s)) \<longrightarrow>
      map (\<lambda>x. (s_id x, s_title x, s_description x, s_projectId x, s_sprintId x, s_parentId x))
          (stories (snd (split storyId sprintId projectId w))) =
        map (\<lambda>x. (s_id x, s_title x, s_description x, s_projectId x, s_sprintId x, s_parentId x)) (stories w) @
          [(freshId (stories w), s_title s, s_description s, s_projectId s, sprintId, storyId)]) \<and>
   (find (\<lambda>x. s_id x = storyId) (stories w) = Some s \<and>
    split storyId sprintId projectId w = (Inr d, w') \<longrightarrow>
      storyNew d \<in> set (stories w') \<and> s_id (storyNew d) = freshId (stories w) \<and>
      s_title (storyNew d) = s_title s \<and> s_description (storyNew d) = s_description s \<and>
      s_projectId (storyNew d) = s_projectId s \<and> s_sprintId (storyNew d) = sprintId \<and>
      s_parentId (storyNew d) = storyId)"
proof (intro conjI impI)
  show "newStoryPayload storyId sprintId s =
     \<lparr>s_title = s_title s, s_description = s_description s, s_projectId = s_projectId s,
      s_sprintId = sprintId, s_parentId = storyId, s_isDone = s_isDone s\<rparr>"
    by (simp add: newStoryPayload_def deleteFields_def)
next
  assume nf: "\<not> faulty w (StoryCreate (newStoryPayload storyId sprintId s))"
  show "\<exists>c w1. newStoryJob storyId sprintId s w = (Inr c, w1) \<and>
         c = \<lparr>s_title = s_title s, s_description = s_description s, s_projectId = s_projectId s,
              s_sprintId = sprintId, s_parentId = storyId, s_isDone = s_isDone s,
              s_id = freshId (stories w), s_createdAt = now w, s_updatedAt = now w,
              s_timeStart = None, s_timeEnd = None\<rparr> \<and>
         stories w1 = stories w @ [c] \<and>
         trace w1 = trace w @ [StoryCreate (newStoryPayload storyId sprintId s), PublishStoryCreate c]"
    by (simp add: newStoryJob_created [OF nf] called_def)
next
  assume "faulty w (StoryCreate (newStoryPayload storyId sprintId s))"
  then show "\<exists>w1. newStoryJob storyId sprintId s w =
               (Inl (PersistenceError (StoryCreate (newStoryPayload storyId sprintId s))), w1) \<and>
         stories w1 = stories w \<and>
         trace w1 = trace w @ [StoryCreate (newStoryPayload storyId sprintId s)]"
    by (simp add: newStoryJob_def Story_create_def called_def)
next
  assume "\<not> faulty w (GetStory storyId) \<and> find (\<lambda>x. s_id x = storyId) (stories w) = Some s"
  then show "StoryCreate (newStoryPayload storyId sprintId s)
        \<in> set (trace (snd (split storyId sprintId projectId w)))"
    by (simp add: split_def getStory_def trace_splitStory)
next
  assume "\<not> faulty w (GetStory storyId) \<and> find (\<lambda>x. s_id x = storyId) (stories w) = Some s \<and>
    \<not> faulty w (StoryCreate (newStoryPayload storyId sprintId s))"
  then show "map (\<lambda>x. (s_id x, s_title x, s_description x, s_projectId x, s_sprintId x, s_parentId x))
          (stories (snd (split storyId sprintId projectId w))) =
        map (\<lambda>x. (s_id x, s_title x, s_description x, s_projectId x, s_sprintId x, s_parentId x)) (stories w) @
          [(freshId (stories w), s_title s, s_description s, s_projectId s, sprintId, storyId)]"
    by (intro split_keeps_new_story) simp_all
next
  assume h: "find (\<lambda>x. s_id x = storyId) (stories w) = Some s \<and>
    split storyId sprintId projectId w = (Inr d, w')"
  then have found: "find (\<lambda>x. s_id x = storyId) (stories w) = Some s"
    and run: "split storyId sprintId projectId w = (Inr d, w')" by simp_all
  from split_Inr_finalize [OF run] found obtain c ts w2
    where nf1: "\<not> faulty w (GetStory storyId)"
      and nf2: "\<not> faulty w (StoryCreate (newStoryPayload storyId sprintId s))"
      and cid: "s_id c = freshId (stories w)"
      and fin: "finalizeStorySplit storyId c ts w2 = (Inr d, w')"
    by auto
  from finalize_new_story [OF fin] cid
  have mem: "storyNew d \<in> set (stories w')" and nid: "s_id (storyNew d) = freshId (stories w)"
    by simp_all
  let ?K = "\<lambda>x. (s_id x, s_title x, s_description x, s_projectId x, s_sprintId x, s_parentId x)"
  have tab: "map ?K (stories w') = map ?K (stories w) @
          [(freshId (stories w), s_title s, s_description s, s_projectId s, sprintId, storyId)]"
    using split_keeps_new_story [OF found nf1 nf2, of projectId] run by simp
  from mem have "?K (storyNew d) \<in> ?K ` set (stories w')" by (rule imageI)
  then have "?K (storyNew d) \<in> set (map ?K (stories w'))" by (simp only: set_map)
  then have "?K (storyNew d) \<in> ?K ` set (stories w) \<or>
      ?K (storyNew d) = (freshId (stories w), s_title s, s_description s, s_projectId s, sprintId, storyId)"
    unfolding tab by auto
  moreover have "?K (storyNew d) \<notin> ?K ` set (stories w)"
  proof
    assume "?K (storyNew d) \<in> ?K ` set (stories w)"
    then obtain x where x: "x \<in> set (stories w)" and "?K x = ?K (storyNew d)" by (rule imageE) simp
    then have "s_id x = freshId (stories w)" using nid by simp
    with freshId_gt [OF x] show False by simp
  qed
  ultimately have "?K (storyNew d) = (freshId (stories w), s_title s, s_description s, s_projectId s, sprintId, storyId)"
    by blast
  with mem show "storyNew d \<in> set (stories w')" and "s_id (storyNew d) = freshId (stories w)"
    and "s_title (storyNew d) = s_title s" and "s_description (storyNew d) = s_description s"
    and "s_projectId (storyNew d) = s_projectId s" and "s_sprintId (storyNew d) = sprintId"
    and "s_parentId (storyNew d) = storyId"
    by simp_all
qed

subsection \<open>A project without open phases\<close>

lemma freshId_fresh: "\<forall>s \<in> set ss. s_id s \<noteq> freshId ss"
proof
  fix s assume "s \<in> set ss"
  from freshId_gt [OF this] show "s_id s \<noteq> freshId ss" by simp
qed

text \<open>
  Claim C9. When the project has no open phase (and no call fails, and the story
  exists), the split succeeds without a single task call in its trace, leaves the task
  table as it was, returns no moved task and a count of 0, and stores the source story
  with \<open>isDone = true\<close> and \<open>timeEnd\<close> the current time.
\<close>

theorem C9_no_open_phases:
  assumes nf: "\<forall>k. \<not> faulty w k"
    and found: "find (\<lambda>x. s_id x = storyId) (stories w) = Some s"
    and empty: "find_where phase_field (openPhasesWhere projectId) (phases w) = []"
  shows "\<exists>d w' c. split storyId sprintId projectId w = (Inr d, w') \<and>
           movedTasks d = [] \<and> taskCnt d = 0 \<and> tasks w' = tasks w \<and>
           trace w' = trace w @
             [GetStory storyId, StoryCreate (newStoryPayload storyId sprintId s), PublishStoryCreate c,
              GetPhases (openPhasesWhere projectId),
              StoryUpdate storyId \<lparr>up_isDone = True, up_timeStart = None, up_timeEnd = Some (now w)\<rparr>,
              PublishStoryUpdate storyId (storyOld d),
              StoryUpdate (s_id c) \<lparr>up_isDone = False, up_timeStart = Some None, up_timeEnd = None\<rparr>,
              PublishStoryUpdate (s_id c) (storyNew d)] \<and>
           storyOld d = s\<lparr>s_isDone := True, s_timeEnd := Some (now w)\<rparr> \<and>
           storyOld d \<in> set (stories w') \<and> s_id (storyOld d) = storyId"
proof -
  let ?u1 = "\<lparr>up_isDone = True, up_timeStart = None, up_timeEnd = Some (now w)\<rparr>"
  let ?u2 = "\<lparr>up_isDone = False, up_timeStart = Some None, up_timeEnd = None\<rparr>"
  let ?p = "newStoryPayload storyId sprintId s"
  define c where "c = \<lparr>s_title = s_title ?p, s_description = s_description ?p,
                  s_projectId = s_projectId ?p, s_sprintId = s_sprintId ?p,
                  s_parentId = s_parentId ?p, s_isDone = s_isDone ?p,
                  s_id = freshId (stories w), s_createdAt = now w, s_updatedAt = now w,
                  s_timeStart = None, s_timeEnd = None\<rparr>"
  have cid: "s_id c = freshId (stories w)" by (simp add: c_def)
  from found have sin: "s \<in> set (stories w)" and sid: "s_id s = storyId"
    by (auto simp add: find_Some_iff)
  from freshId_gt [OF sin] sid have ne: "freshId (stories w) \<noteq> storyId" by simp
  define w0 where "w0 = called (GetStory storyId) w"
  define w1 where "w1 = called (PublishStoryCreate c) (called (StoryCreate ?p) (w0\<lparr>stories := stories w @ [c]\<rparr>))"
  define w2 where "w2 = called (GetPhases (openPhasesWhere projectId)) w1"
  define old where "old = apply_patch ?u1 s"
  define ss3 where "ss3 = map (\<lambda>x. if s_id x = storyId then apply_patch ?u1 x else x) (stories w) @ [c]"
  define w3 where "w3 = called (PublishStoryUpdate storyId old) (called (StoryUpdate storyId ?u1) (w2\<lparr>stories := ss3\<rparr>))"
  define new where "new = apply_patch ?u2 c"
  define ss4 where "ss4 = map (\<lambda>x. if s_id x = s_id c then apply_patch ?u2 x else x) ss3"
  define w4 where "w4 = called (PublishStoryUpdate (s_id c) new) (called (StoryUpdate (s_id c) ?u2) (w3\<lparr>stories := ss4\<rparr>))"
  have g: "getStory storyId w = (Inr s, w0)"
    using nf found by (simp add: getStory_def w0_def)
  have n: "newStoryJob storyId sprintId s w0 = (Inr c, w1)"
    using nf by (simp add: newStoryJob_def Story_create_def Let_def w0_def w1_def c_def)
  have p: "phasesJob projectId w1 = (Inr [], w2)"
    using nf empty by (simp add: phasesJob_def getPhases_def w0_def w1_def w2_def)
  have st2: "stories w2 = stories w @ [c]" and nw2: "now w2 = now w" and f2: "faulty w2 = faulty w"
    by (simp_all add: w2_def w1_def w0_def)
  from find_filter_Cons [OF found] obtain rest
    where rows: "filter (\<lambda>x. s_id x = storyId) (stories w) = s # rest" ..
  have o: "updateOldJob storyId w2 = (Inr old, w3)"
    using nf rows ne
    by (simp add: updateOldJob_def Story_update_def Let_def st2 nw2 f2 patched_rows cid old_def w3_def ss3_def)
  have st3: "stories w3 = ss3" and f3: "faulty w3 = faulty w" by (simp_all add: w3_def f2)
  have rows3: "filter (\<lambda>x. s_id x = s_id c) ss3 = [c]"
  proof -
    have "filter (\<lambda>x. s_id x = freshId (stories w))
            (map (\<lambda>x. if s_id x = storyId then apply_patch ?u1 x else x) (stories w)) = []"
      using freshId_fresh [of "stories w"] by (auto simp add: filter_empty_conv)
    then show ?thesis by (simp add: ss3_def cid)
  qed
  have nst: "newStoryTimeStart [] = None" by (simp add: newStoryTimeStart_def)
  have u: "updateNewJob c [] w3 = (Inr new, w4)"
    using nf rows3
    by (simp add: updateNewJob_def Story_update_def Let_def st3 f3 patched_rows nst new_def w4_def ss4_def)
  have run: "split storyId sprintId projectId w =
               (Inr \<lparr>storyOld = old, storyNew = new, movedTasks = [], taskCnt = 0\<rparr>, w4)"
    by (simp add: split_def g splitStory_unfold [OF n p] finalize_unfold [OF o u])
  have tasks4: "tasks w4 = tasks w"
    by (simp add: w4_def w3_def w2_def w1_def w0_def)
  have trace4: "trace w4 = trace w @
             [GetStory storyId, StoryCreate ?p, PublishStoryCreate c,
              GetPhases (openPhasesWhere projectId),
              StoryUpdate storyId ?u1, PublishStoryUpdate storyId old,
              StoryUpdate (s_id c) ?u2, PublishStoryUpdate (s_id c) new]"
    by (simp add: w4_def w3_def w2_def w1_def w0_def)
  have old_eq: "old = s\<lparr>s_isDone := True, s_timeEnd := Some (now w)\<rparr>"
    by (simp add: old_def apply_patch_def)
  have "old \<in> set ss3" using sin sid by (auto simp add: ss3_def old_def image_iff intro!: bexI [of _ s])
  moreover have "s_id old = storyId" by (simp add: old_def sid)
  ultimately have old_in: "old \<in> set (stories w4)"
    using ne by (auto simp add: w4_def ss4_def cid image_iff intro!: bexI [of _ old])
  show ?thesis
    using run tasks4 trace4 old_eq old_in sid
    by (intro exI [of _ "\<lparr>storyOld = old, storyNew = new, movedTasks = [], taskCnt = 0\<rparr>"]
              exI [of _ w4] exI [of _ c]) (simp add: old_def)
qed

subsection \<open>Parallel stages\<close>

text \<open>
  A slot is written exactly when its job is in the order of completion, so a stage has a
  result for its caller exactly when every registered job is in that order.
\<close>

lemma complete_slots:
  "length slots = length jobs \<Longrightarrow>
   length (fst (complete order jobs slots w)) = length jobs \<and>
   (\<forall>i < length jobs. (fst (complete order jobs slots w) ! i = None) = (slots ! i = None \<and> i \<notin> set order))"
proof (induction order arbitrary: slots w)
  case Nil
  then show ?case by simp
next
  case (Cons a order)
  show ?case
  proof (cases "a < length jobs \<and> a < length slots \<and> slots ! a = None")
    case True
    obtain r w1 where j: "snd (jobs ! a) w = (r, w1)" by (cases "snd (jobs ! a) w")
    have len: "length (slots[a := Some r]) = length jobs" using Cons.prems by simp
    from Cons.IH [OF len, of "called (JobCompleted (fst (jobs ! a))) w1"] True j Cons.prems
    show ?thesis by (auto simp add: nth_list_update)
  next
    case False
    with Cons.IH [OF Cons.prems, of w] Cons.prems show ?thesis by auto
  qed
qed

lemma runParallel_waits:
  "(fst (runParallel order jobs w) = None) = (\<exists>i < length jobs. i \<notin> set order)"
proof -
  obtain slots w1 where c: "complete order jobs (replicate (length jobs) None) w = (slots, w1)"
    by (cases "complete order jobs (replicate (length jobs) None) w")
  from complete_slots [of "replicate (length jobs) None" jobs order w] c
  have len: "length slots = length jobs"
    and sl: "\<forall>i < length jobs. (slots ! i = None) = (i \<notin> set order)" by simp_all
  have "(None \<in> set slots) = (\<exists>i < length jobs. i \<notin> set order)"
    using len sl by (auto simp add: in_set_conv_nth)
  then show ?thesis by (simp add: runParallel_def c)
qed

lemma complete_keeps:
  assumes jobs: "\<And>n j w. (n, j) \<in> set jobs \<Longrightarrow> ev \<notin> set (trace w) \<Longrightarrow> ev \<notin> set (trace (snd (j w)))"
    and ev: "\<And>n. ev \<noteq> JobCompleted n"
  shows "ev \<notin> set (trace w) \<Longrightarrow> ev \<notin> set (trace (snd (complete order jobs slots w)))"
proof (induction order arbitrary: slots w)
  case Nil
  then show ?case by simp
next
  case (Cons a order)
  show ?case
  proof (cases "a < length jobs \<and> a < length slots \<and> slots ! a = None")
    case True
    obtain r w1 where j: "snd (jobs ! a) w = (r, w1)" by (cases "snd (jobs ! a) w")
    have "(fst (jobs ! a), snd (jobs ! a)) \<in> set jobs" using True by simp
    from jobs [OF this Cons.prems] j have "ev \<notin> set (trace w1)" by simp
    then have "ev \<notin> set (trace (called (JobCompleted (fst (jobs ! a))) w1))"
      using ev by (simp add: called_def)
    from Cons.IH [OF this] True j show ?thesis by simp
  next
    case False
    with Cons.IH [OF Cons.prems] show ?thesis by auto
  qed
qed

lemma two_orders:
  assumes "distinct order" "set order = {0, 1::nat}"
  shows "order = [0, 1] \<or> order = [1, 0]"
proof -
  from assms have "length order = 2" using distinct_card [of order] by simp
  then obtain a b where ab: "order = [a, b]"
    by (metis (no_types, opaque_lifting) Suc_length_conv length_0_conv numeral_2_eq_2)
  with assms show ?thesis by (auto simp add: doubleton_eq_iff)
qed


lemma splitStoryStage_runs:
  fixes storyId sprintId projectId s w
  defines "P \<equiv> StoryCreate (newStoryPayload storyId sprintId s)"
    and "G \<equiv> GetPhases (openPhasesWhere projectId)"
    and "c \<equiv> \<lparr>s_title = s_title s, s_description = s_description s, s_projectId = s_projectId s,
              s_sprintId = sprintId, s_parentId = storyId, s_isDone = s_isDone s,
              s_id = freshId (stories w), s_createdAt = now w, s_updatedAt = now w,
              s_timeStart = None, s_timeEnd = None\<rparr>"
  defines "res \<equiv> (if faulty w P then Inl (PersistenceError P)
                   else if faulty w G then Inl (DataAccessError G)
                   else Inr [ResultNewStory c,
                             ResultPhases (find_where phase_field (openPhasesWhere projectId) (phases w))])"
    and "evsN \<equiv> (if faulty w P then [P] else [P, PublishStoryCreate c])"
  shows "fst (splitStoryStage [0, 1] storyId sprintId projectId s w) = Some res"
    and "fst (splitStoryStage [1, 0] storyId sprintId projectId s w) = Some res"
    and "trace (snd (splitStoryStage [0, 1] storyId sprintId projectId s w)) =
           trace w @ (evsN @ [JobCompleted ''newStory'', G, JobCompleted ''phases'']) @ [ContinuationInvoked]"
    and "trace (snd (splitStoryStage [1, 0] storyId sprintId projectId s w)) =
           trace w @ ([G, JobCompleted ''phases''] @ evsN @ [JobCompleted ''newStory'']) @ [ContinuationInvoked]"
    and "stories (snd (splitStoryStage [0, 1] storyId sprintId projectId s w)) =
           (if faulty w P then stories w else stories w @ [c])"
    and "stories (snd (splitStoryStage [1, 0] storyId sprintId projectId s w)) =
           (if faulty w P then stories w else stories w @ [c])"
  unfolding P_def G_def c_def res_def evsN_def
  by (simp_all add: splitStoryStage_def runParallel_def splitStoryJobs_def job_map_def
      newStoryJob_def Story_create_def phasesJob_def getPhases_def called_def Let_def
      newStoryPayload_def deleteFields_def)



lemma runParallel_two:
  "runParallel [0, 1] [(n0, j0), (n1, j1)] w =
     (case j0 w of
        (r0, w0) \<Rightarrow>
          (case j1 (called (JobCompleted n0) w0) of
             (r1, w1) \<Rightarrow>
               (Some (collect [r0, r1]), called ContinuationInvoked (called (JobCompleted n1) w1))))"
  "runParallel [1, 0] [(n0, j0), (n1, j1)] w =
     (case j1 w of
        (r1, w1) \<Rightarrow>
          (case j0 (called (JobCompleted n1) w1) of
             (r0, w0) \<Rightarrow>
               (Some (collect [r0, r1]), called ContinuationInvoked (called (JobCompleted n0) w0))))"
  by (simp_all add: runParallel_def split: prod.splits)

lemma runParallel_trace:
  "trace (snd (runParallel order jobs w)) =
     trace (snd (complete order jobs (replicate (length jobs) None) w)) @
       (if \<exists>i < length jobs. i \<notin> set order then [] else [ContinuationInvoked])"
proof -
  obtain slots w1 where c: "complete order jobs (replicate (length jobs) None) w = (slots, w1)"
    by (cases "complete order jobs (replicate (length jobs) None) w")
  from runParallel_waits [of order jobs w]
  have "(None \<in> set slots) = (\<exists>i < length jobs. i \<notin> set order)"
    by (simp add: runParallel_def c split: if_splits)
  then show ?thesis by (simp add: runParallel_def c called_def)
qed

lemma update_jobs_trace:
  "\<exists>e. trace (snd (updateOldJob sid w)) =
          trace w @ StoryUpdate sid \<lparr>up_isDone = True, up_timeStart = None, up_timeEnd = Some (now w)\<rparr> # e \<and>
        ContinuationInvoked \<notin> set e"
  "\<exists>e. trace (snd (updateNewJob c ts w)) =
          trace w @ StoryUpdate (s_id c)
             \<lparr>up_isDone = False, up_timeStart = Some (newStoryTimeStart ts), up_timeEnd = None\<rparr> # e \<and>
        ContinuationInvoked \<notin> set e"
  by (simp_all add: updateOldJob_def updateNewJob_def Story_update_def Let_def called_def
      split: list.splits)

lemma update_jobs_faulty:
  "faulty w (StoryUpdate sid \<lparr>up_isDone = True, up_timeStart = None, up_timeEnd = Some (now w)\<rparr>) \<Longrightarrow>
   fst (updateOldJob sid w) =
     Inl (PersistenceError (StoryUpdate sid \<lparr>up_isDone = True, up_timeStart = None, up_timeEnd = Some (now w)\<rparr>)) \<and>
   stories (snd (updateOldJob sid w)) = stories w"
  "faulty w (StoryUpdate (s_id c)
      \<lparr>up_isDone = False, up_timeStart = Some (newStoryTimeStart ts), up_timeEnd = None\<rparr>) \<Longrightarrow>
   fst (updateNewJob c ts w) =
     Inl (PersistenceError (StoryUpdate (s_id c)
      \<lparr>up_isDone = False, up_timeStart = Some (newStoryTimeStart ts), up_timeEnd = None\<rparr>)) \<and>
   stories (snd (updateNewJob c ts w)) = stories w"
  by (simp_all add: updateOldJob_def updateNewJob_def Story_update_def)

lemma updateOldJob_run:
  assumes nf: "\<not> faulty w (StoryUpdate sid \<lparr>up_isDone = True, up_timeStart = None, up_timeEnd = Some (now w)\<rparr>)"
    and found: "find (\<lambda>x. s_id x = sid) (stories w) = Some s0"
  shows "fst (updateOldJob sid w) = Inr (apply_patch \<lparr>up_isDone = True, up_timeStart = None, up_timeEnd = Some (now w)\<rparr> s0)"
    and "trace (snd (updateOldJob sid w)) =
           trace w @ [StoryUpdate sid \<lparr>up_isDone = True, up_timeStart = None, up_timeEnd = Some (now w)\<rparr>, PublishStoryUpdate sid (apply_patch \<lparr>up_isDone = True, up_timeStart = None, up_timeEnd = Some (now w)\<rparr> s0)]"
proof -
  from find_filter_Cons [OF found] obtain rest
    where "filter (\<lambda>x. s_id x = sid) (stories w) = s0 # rest" ..
  then show "fst (updateOldJob sid w) = Inr (apply_patch \<lparr>up_isDone = True, up_timeStart = None, up_timeEnd = Some (now w)\<rparr> s0)"
    and "trace (snd (updateOldJob sid w)) =
           trace w @ [StoryUpdate sid \<lparr>up_isDone = True, up_timeStart = None, up_timeEnd = Some (now w)\<rparr>, PublishStoryUpdate sid (apply_patch \<lparr>up_isDone = True, up_timeStart = None, up_timeEnd = Some (now w)\<rparr> s0)]"
    using nf by (simp_all add: updateOldJob_def Story_update_def Let_def patched_rows called_def)
qed

lemma finalizeStage_registration_order:
  assumes o: "order = [0, 1]"
  shows "\<exists>evs. trace (snd (finalizeStage order storyId created ts w)) = trace w @ evs @ [ContinuationInvoked] \<and>
           ContinuationInvoked \<notin> set evs \<and> JobCompleted ''0'' \<in> set evs \<and> JobCompleted ''1'' \<in> set evs \<and>
           StoryUpdate storyId \<lparr>up_isDone = True, up_timeStart = None, up_timeEnd = Some (now w)\<rparr> \<in> set evs \<and>
           StoryUpdate (s_id created) \<lparr>up_isDone = False, up_timeStart = Some (newStoryTimeStart ts), up_timeEnd = None\<rparr> \<in> set evs \<and>
           (\<not> faulty w (StoryUpdate storyId \<lparr>up_isDone = True, up_timeStart = None, up_timeEnd = Some (now w)\<rparr>) \<and> faulty w (StoryUpdate (s_id created) \<lparr>up_isDone = False, up_timeStart = Some (newStoryTimeStart ts), up_timeEnd = None\<rparr>) \<longrightarrow>
              (\<forall>x. find (\<lambda>x. s_id x = storyId) (stories w) = Some x \<longrightarrow>
                 PublishStoryUpdate storyId (apply_patch \<lparr>up_isDone = True, up_timeStart = None, up_timeEnd = Some (now w)\<rparr> x) \<in> set evs))"
    and "\<exists>r. fst (finalizeStage order storyId created ts w) = Some r \<and>
           (faulty w (StoryUpdate storyId \<lparr>up_isDone = True, up_timeStart = None, up_timeEnd = Some (now w)\<rparr>) \<longrightarrow> r = Inl (PersistenceError (StoryUpdate storyId \<lparr>up_isDone = True, up_timeStart = None, up_timeEnd = Some (now w)\<rparr>))) \<and>
           (\<not> faulty w (StoryUpdate storyId \<lparr>up_isDone = True, up_timeStart = None, up_timeEnd = Some (now w)\<rparr>) \<and> faulty w (StoryUpdate (s_id created) \<lparr>up_isDone = False, up_timeStart = Some (newStoryTimeStart ts), up_timeEnd = None\<rparr>) \<and>
            (\<exists>x. find (\<lambda>x. s_id x = storyId) (stories w) = Some x) \<longrightarrow>
              r = Inl (PersistenceError (StoryUpdate (s_id created) \<lparr>up_isDone = False, up_timeStart = Some (newStoryTimeStart ts), up_timeEnd = None\<rparr>)))"
proof -
  let ?p1 = "\<lparr>up_isDone = True, up_timeStart = None, up_timeEnd = Some (now w)\<rparr>"
  let ?u1 = "StoryUpdate storyId ?p1"
  let ?u2 = "StoryUpdate (s_id created) \<lparr>up_isDone = False, up_timeStart = Some (newStoryTimeStart ts), up_timeEnd = None\<rparr>"
  obtain r0 w0 where a: "updateOldJob storyId w = (r0, w0)" by (cases "updateOldJob storyId w")
  let ?w0 = "called (JobCompleted ''0'') w0"
  obtain r1 w1 where b: "updateNewJob created ts ?w0 = (r1, w1)" by (cases "updateNewJob created ts ?w0")
  have f0: "faulty ?w0 = faulty w" using updateOldJob_frame(3) [of storyId w] a by simp
  from update_jobs_trace(1) [of storyId w] a obtain e0
    where t0: "trace w0 = trace w @ ?u1 # e0" and c0: "ContinuationInvoked \<notin> set e0" by auto
  from update_jobs_trace(2) [of created ts ?w0] b obtain e1
    where t1: "trace w1 = trace ?w0 @ ?u2 # e1" and c1: "ContinuationInvoked \<notin> set e1" by auto
  let ?evs = "?u1 # e0 @ [JobCompleted ''0''] @ ?u2 # e1 @ [JobCompleted ''1'']"
  have run: "finalizeStage order storyId created ts w =
      (Some (collect [r0, r1]), called ContinuationInvoked (called (JobCompleted ''1'') w1))"
    by (simp only: finalizeStage_def finalizeJobs_def o runParallel_two a b prod.case)
  have tr: "trace (snd (finalizeStage order storyId created ts w)) = trace w @ ?evs @ [ContinuationInvoked]"
    by (simp add: run t0 t1)
  have e0: "e0 = [PublishStoryUpdate storyId (apply_patch ?p1 x)]" and r0: "r0 = Inr (apply_patch ?p1 x)"
    if "\<not> faulty w ?u1" "find (\<lambda>x. s_id x = storyId) (stories w) = Some x" for x
    using updateOldJob_run [OF that] a t0 by simp_all
  have r0f: "r0 = Inl (PersistenceError ?u1)" if "faulty w ?u1"
    using update_jobs_faulty(1) [OF that] a by simp
  have r1f: "r1 = Inl (PersistenceError ?u2)" if "faulty w ?u2"
    using update_jobs_faulty(2) [of ?w0 created ts] that b f0 by simp
  show "\<exists>evs. trace (snd (finalizeStage order storyId created ts w)) = trace w @ evs @ [ContinuationInvoked] \<and>
           ContinuationInvoked \<notin> set evs \<and> JobCompleted ''0'' \<in> set evs \<and> JobCompleted ''1'' \<in> set evs \<and>
           StoryUpdate storyId \<lparr>up_isDone = True, up_timeStart = None, up_timeEnd = Some (now w)\<rparr> \<in> set evs \<and>
           StoryUpdate (s_id created) \<lparr>up_isDone = False, up_timeStart = Some (newStoryTimeStart ts), up_timeEnd = None\<rparr> \<in> set evs \<and>
           (\<not> faulty w (StoryUpdate storyId \<lparr>up_isDone = True, up_timeStart = None, up_timeEnd = Some (now w)\<rparr>) \<and> faulty w (StoryUpdate (s_id created) \<lparr>up_isDone = False, up_timeStart = Some (newStoryTimeStart ts), up_timeEnd = None\<rparr>) \<longrightarrow>
              (\<forall>x. find (\<lambda>x. s_id x = storyId) (stories w) = Some x \<longrightarrow>
                 PublishStoryUpdate storyId (apply_patch \<lparr>up_isDone = True, up_timeStart = None, up_timeEnd = Some (now w)\<rparr> x) \<in> set evs))"
    by (rule exI [of _ ?evs]) (use tr c0 c1 e0 in auto)
  show "\<exists>r. fst (finalizeStage order storyId created ts w) = Some r \<and>
           (faulty w (StoryUpdate storyId \<lparr>up_isDone = True, up_timeStart = None, up_timeEnd = Some (now w)\<rparr>) \<longrightarrow> r = Inl (PersistenceError (StoryUpdate storyId \<lparr>up_isDone = True, up_timeStart = None, up_timeEnd = Some (now w)\<rparr>))) \<and>
           (\<not> faulty w (StoryUpdate storyId \<lparr>up_isDone = True, up_timeStart = None, up_timeEnd = Some (now w)\<rparr>) \<and> faulty w (StoryUpdate (s_id created) \<lparr>up_isDone = False, up_timeStart = Some (newStoryTimeStart ts), up_timeEnd = None\<rparr>) \<and>
            (\<exists>x. find (\<lambda>x. s_id x = storyId) (stories w) = Some x) \<longrightarrow>
              r = Inl (PersistenceError (StoryUpdate (s_id created) \<lparr>up_isDone = False, up_timeStart = Some (newStoryTimeStart ts), up_timeEnd = None\<rparr>)))"
    by (rule exI [of _ "collect [r0, r1]"]) (use run r0 r0f r1f in auto)
qed

lemma finalizeStage_reverse_order:
  assumes o: "order = [1, 0]"
  shows "\<exists>evs. trace (snd (finalizeStage order storyId created ts w)) = trace w @ evs @ [ContinuationInvoked] \<and>
           ContinuationInvoked \<notin> set evs \<and> JobCompleted ''0'' \<in> set evs \<and> JobCompleted ''1'' \<in> set evs \<and>
           StoryUpdate storyId \<lparr>up_isDone = True, up_timeStart = None, up_timeEnd = Some (now w)\<rparr> \<in> set evs \<and>
           StoryUpdate (s_id created) \<lparr>up_isDone = False, up_timeStart = Some (newStoryTimeStart ts), up_timeEnd = None\<rparr> \<in> set evs \<and>
           (\<not> faulty w (StoryUpdate storyId \<lparr>up_isDone = True, up_timeStart = None, up_timeEnd = Some (now w)\<rparr>) \<and> faulty w (StoryUpdate (s_id created) \<lparr>up_isDone = False, up_timeStart = Some (newStoryTimeStart ts), up_timeEnd = None\<rparr>) \<longrightarrow>
              (\<forall>x. find (\<lambda>x. s_id x = storyId) (stories w) = Some x \<longrightarrow>
                 PublishStoryUpdate storyId (apply_patch \<lparr>up_isDone = True, up_timeStart = None, up_timeEnd = Some (now w)\<rparr> x) \<in> set evs))"
    and "\<exists>r. fst (finalizeStage order storyId created ts w) = Some r \<and>
           (faulty w (StoryUpdate storyId \<lparr>up_isDone = True, up_timeStart = None, up_timeEnd = Some (now w)\<rparr>) \<longrightarrow> r = Inl (PersistenceError (StoryUpdate storyId \<lparr>up_isDone = True, up_timeStart = None, up_timeEnd = Some (now w)\<rparr>))) \<and>
           (\<not> faulty w (StoryUpdate storyId \<lparr>up_isDone = True, up_timeStart = None, up_timeEnd = Some (now w)\<rparr>) \<and> faulty w (StoryUpdate (s_id created) \<lparr>up_isDone = False, up_timeStart = Some (newStoryTimeStart ts), up_timeEnd = None\<rparr>) \<and>
            (\<exists>x. find (\<lambda>x. s_id x = storyId) (stories w) = Some x) \<longrightarrow>
              r = Inl (PersistenceError (StoryUpdate (s_id created) \<lparr>up_isDone = False, up_timeStart = Some (newStoryTimeStart ts), up_timeEnd = None\<rparr>)))"
proof -
  let ?p1 = "\<lparr>up_isDone = True, up_timeStart = None, up_timeEnd = Some (now w)\<rparr>"
  let ?u1 = "StoryUpdate storyId ?p1"
  let ?u2 = "StoryUpdate (s_id created) \<lparr>up_isDone = False, up_timeStart = Some (newStoryTimeStart ts), up_timeEnd = None\<rparr>"
  obtain r1 w1 where b: "updateNewJob created ts w = (r1, w1)" by (cases "updateNewJob created ts w")
  let ?w1 = "called (JobCompleted ''1'') w1"
  obtain r0 w0 where a: "updateOldJob storyId ?w1 = (r0, w0)" by (cases "updateOldJob storyId ?w1")
  have f1: "faulty w1 = faulty w" and n1: "now w1 = now w"
    using updateNewJob_frame(3,4) [of created ts w] b by simp_all
  from update_jobs_trace(2) [of created ts w] b obtain e1
    where t1: "trace w1 = trace w @ ?u2 # e1" and c1: "ContinuationInvoked \<notin> set e1" by auto
  from update_jobs_trace(1) [of storyId ?w1] a obtain e0
    where t0: "trace w0 = trace ?w1 @ ?u1 # e0" and c0: "ContinuationInvoked \<notin> set e0"
    by (auto simp add: n1)
  let ?evs = "?u2 # e1 @ [JobCompleted ''1''] @ ?u1 # e0 @ [JobCompleted ''0'']"
  have run: "finalizeStage order storyId created ts w =
      (Some (collect [r0, r1]), called ContinuationInvoked (called (JobCompleted ''0'') w0))"
    by (simp only: finalizeStage_def finalizeJobs_def o runParallel_two a b prod.case)
  have tr: "trace (snd (finalizeStage order storyId created ts w)) = trace w @ ?evs @ [ContinuationInvoked]"
    by (simp add: run t0 t1)
  have r1f: "r1 = Inl (PersistenceError ?u2)" and s1: "stories w1 = stories w" if "faulty w ?u2"
    using update_jobs_faulty(2) [OF that] b by simp_all
  have e0: "e0 = [PublishStoryUpdate storyId (apply_patch ?p1 x)]" and r0: "r0 = Inr (apply_patch ?p1 x)"
    if "\<not> faulty w ?u1" "faulty w ?u2" "find (\<lambda>x. s_id x = storyId) (stories w) = Some x" for x
  proof -
    have nf: "\<not> faulty ?w1 (StoryUpdate storyId \<lparr>up_isDone = True, up_timeStart = None, up_timeEnd = Some (now ?w1)\<rparr>)"
      using that(1) by (simp add: f1 n1)
    have found: "find (\<lambda>x. s_id x = storyId) (stories ?w1) = Some x" using that(3) s1 [OF that(2)] by simp
    from updateOldJob_run [OF nf found] a t0
    show "e0 = [PublishStoryUpdate storyId (apply_patch ?p1 x)]" and "r0 = Inr (apply_patch ?p1 x)"
      by (simp_all add: n1)
  qed
  have r0f: "r0 = Inl (PersistenceError ?u1)" if "faulty w ?u1"
    using update_jobs_faulty(1) [of ?w1 storyId] that a by (simp add: f1 n1)
  show "\<exists>evs. trace (snd (finalizeStage order storyId created ts w)) = trace w @ evs @ [ContinuationInvoked] \<and>
           ContinuationInvoked \<notin> set evs \<and> JobCompleted ''0'' \<in> set evs \<and> JobCompleted ''1'' \<in> set evs \<and>
           StoryUpdate storyId \<lparr>up_isDone = True, up_timeStart = None, up_timeEnd = Some (now w)\<rparr> \<in> set evs \<and>
           StoryUpdate (s_id created) \<lparr>up_isDone = False, up_timeStart = Some (newStoryTimeStart ts), up_timeEnd = None\<rparr> \<in> set evs \<and>
           (\<not> faulty w (StoryUpdate storyId \<lparr>up_isDone = True, up_timeStart = None, up_timeEnd = Some (now w)\<rparr>) \<and> faulty w (StoryUpdate (s_id created) \<lparr>up_isDone = False, up_timeStart = Some (newStoryTimeStart ts), up_timeEnd = None\<rparr>) \<longrightarrow>
              (\<forall>x. find (\<lambda>x. s_id x = storyId) (stories w) = Some x \<longrightarrow>
                 PublishStoryUpdate storyId (apply_patch \<lparr>up_isDone = True, up_timeStart = None, up_timeEnd = Some (now w)\<rparr> x) \<in> set evs))"
    by (rule exI [of _ ?evs]) (use tr c0 c1 e0 in auto)
  show "\<exists>r. fst (finalizeStage order storyId created ts w) = Some r \<and>
           (faulty w (StoryUpdate storyId \<lparr>up_isDone = True, up_timeStart = None, up_timeEnd = Some (now w)\<rparr>) \<longrightarrow> r = Inl (PersistenceError (StoryUpdate storyId \<lparr>up_isDone = True, up_timeStart = None, up_timeEnd = Some (now w)\<rparr>))) \<and>
           (\<not> faulty w (StoryUpdate storyId \<lparr>up_isDone = True, up_timeStart = None, up_timeEnd = Some (now w)\<rparr>) \<and> faulty w (StoryUpdate (s_id created) \<lparr>up_isDone = False, up_timeStart = Some (newStoryTimeStart ts), up_timeEnd = None\<rparr>) \<and>
            (\<exists>x. find (\<lambda>x. s_id x = storyId) (stories w) = Some x) \<longrightarrow>
              r = Inl (PersistenceError (StoryUpdate (s_id created) \<lparr>up_isDone = False, up_timeStart = Some (newStoryTimeStart ts), up_timeEnd = None\<rparr>)))"
    by (rule exI [of _ "collect [r0, r1]"]) (use run r0 r0f r1f in auto)
qed

text \<open>
  The jobs of the two stages never record the invocation of a continuation themselves,
  so the trace of a stage holds it exactly when both jobs have completed.
\<close>

lemma splitStoryJobs_keep:
  "(n, j) \<in> set (splitStoryJobs storyId sprintId projectId s) \<Longrightarrow>
   ContinuationInvoked \<notin> set (trace w) \<Longrightarrow> ContinuationInvoked \<notin> set (trace (snd (j w)))"
  by (auto simp add: splitStoryJobs_def job_map_def newStoryJob_def Story_create_def phasesJob_def
      getPhases_def Let_def split: if_splits)

lemma finalizeJobs_keep:
  "(n, j) \<in> set (finalizeJobs storyId created ts) \<Longrightarrow>
   ContinuationInvoked \<notin> set (trace w) \<Longrightarrow> ContinuationInvoked \<notin> set (trace (snd (j w)))"
  using update_jobs_trace(1) [of storyId w] update_jobs_trace(2) [of created ts w]
  by (auto simp add: finalizeJobs_def)

lemma two_covered: "(\<exists>i < Suc (Suc 0). i \<notin> set ord) = (\<not> {0, 1} \<subseteq> set ord)"
  by (auto simp add: less_Suc_eq)

lemma stage_continuation:
  assumes "ContinuationInvoked \<notin> set (trace w)"
  shows "(ContinuationInvoked \<in> set (trace (snd (splitStoryStage ord storyId sprintId projectId s w)))) =
           ({0, 1} \<subseteq> set ord)"
    and "(ContinuationInvoked \<in> set (trace (snd (finalizeStage ord storyId created ts w)))) =
           ({0, 1} \<subseteq> set ord)"
proof -
  have a: "ContinuationInvoked \<notin> set (trace (snd (complete ord (splitStoryJobs storyId sprintId projectId s) slots w)))"
    for slots
  proof (rule complete_keeps [OF _ _ assms])
    fix n j and w' :: world
    assume "(n, j) \<in> set (splitStoryJobs storyId sprintId projectId s)"
      and "ContinuationInvoked \<notin> set (trace w')"
    then show "ContinuationInvoked \<notin> set (trace (snd (j w')))" by (rule splitStoryJobs_keep)
  next
    fix n show "ContinuationInvoked \<noteq> JobCompleted n" by simp
  qed
  have b: "ContinuationInvoked \<notin> set (trace (snd (complete ord (finalizeJobs storyId created ts) slots w)))"
    for slots
  proof (rule complete_keeps [OF _ _ assms])
    fix n j and w' :: world
    assume "(n, j) \<in> set (finalizeJobs storyId created ts)"
      and "ContinuationInvoked \<notin> set (trace w')"
    then show "ContinuationInvoked \<notin> set (trace (snd (j w')))" by (rule finalizeJobs_keep)
  next
    fix n show "ContinuationInvoked \<noteq> JobCompleted n" by simp
  qed
  have la: "length (splitStoryJobs storyId sprintId projectId s) = Suc (Suc 0)"
    and lb: "length (finalizeJobs storyId created ts) = Suc (Suc 0)"
    by (simp_all add: splitStoryJobs_def finalizeJobs_def)
  show "(ContinuationInvoked \<in> set (trace (snd (splitStoryStage ord storyId sprintId projectId s w)))) =
           ({0, 1} \<subseteq> set ord)"
    unfolding splitStoryStage_def runParallel_trace la two_covered using a [unfolded la] by simp
  show "(ContinuationInvoked \<in> set (trace (snd (finalizeStage ord storyId created ts w)))) =
           ({0, 1} \<subseteq> set ord)"
    unfolding finalizeStage_def runParallel_trace lb two_covered using b [unfolded lb] by simp
qed

lemma splitStory_reports_stage_error:
  assumes "fst (splitStoryStage [0, 1] storyId sprintId projectId s w) = Some (Inl e)"
  shows "fst (splitStory storyId sprintId projectId s w) = Inl e"
proof -
  from assms [unfolded splitStoryStage_runs(1)]
  have "faulty w (StoryCreate (newStoryPayload storyId sprintId s)) \<and>
          e = PersistenceError (StoryCreate (newStoryPayload storyId sprintId s)) \<or>
        \<not> faulty w (StoryCreate (newStoryPayload storyId sprintId s)) \<and>
          faulty w (GetPhases (openPhasesWhere projectId)) \<and>
          e = DataAccessError (GetPhases (openPhasesWhere projectId))"
    by (auto split: if_splits)
  then show ?thesis
    by (auto simp add: splitStory_def newStoryJob_def Story_create_def phasesJob_def getPhases_def Let_def)
qed

text \<open>
  Claim C10. A parallel stage has a result exactly when every registered job is in the
  order of completion, and the two stages of the split record the invocation of the
  continuation exactly then. For both orders in which the two jobs of a stage can
  complete: the invocation of the continuation is the last event of the stage, after
  the completion of both jobs and after the calls of both; the result is the error of
  the first failing job in registration order (the error of the create, even when the
  fetch of the phases fails too and completes first; the error of the first update), and
  then no result of a job is passed on; the result holds the results of both jobs when
  neither fails. A job whose sibling fails still has its effects: when only the fetch of
  the phases fails, the stage reports that error, and the new story is stored and its
  creation published; when only the second update fails, the update of the source story
  is published.
\<close>

theorem C10_parallel_stages:
  assumes d: "distinct order" and c: "set order = {0, 1}"
  shows "(fst (runParallel ord jobs w) = None) = (\<exists>i < length jobs. i \<notin> set ord) \<and>
     (ContinuationInvoked \<notin> set (trace w) \<longrightarrow>
       (ContinuationInvoked \<in> set (trace (snd (splitStoryStage ord storyId sprintId projectId s w)))) =
         ({0, 1} \<subseteq> set ord) \<and>
       (ContinuationInvoked \<in> set (trace (snd (finalizeStage ord storyId created ts w)))) =
         ({0, 1} \<subseteq> set ord)) \<and>
     fst (splitStoryStage order storyId sprintId projectId s w) =
       Some (if faulty w (StoryCreate (newStoryPayload storyId sprintId s))
             then Inl (PersistenceError (StoryCreate (newStoryPayload storyId sprintId s)))
             else if faulty w (GetPhases (openPhasesWhere projectId))
             then Inl (DataAccessError (GetPhases (openPhasesWhere projectId)))
             else Inr [ResultNewStory
                        \<lparr>s_title = s_title s, s_description = s_description s, s_projectId = s_projectId s,
               s_sprintId = sprintId, s_parentId = storyId, s_isDone = s_isDone s,
               s_id = freshId (stories w), s_createdAt = now w, s_updatedAt = now w,
               s_timeStart = None, s_timeEnd = None\<rparr>,
                       ResultPhases (find_where phase_field (openPhasesWhere projectId) (phases w))]) \<and>
     (\<exists>evs. trace (snd (splitStoryStage order storyId sprintId projectId s w)) =
              trace w @ evs @ [ContinuationInvoked] \<and>
            ContinuationInvoked \<notin> set evs \<and>
            JobCompleted ''newStory'' \<in> set evs \<and> JobCompleted ''phases'' \<in> set evs \<and>
            StoryCreate (newStoryPayload storyId sprintId s) \<in> set evs \<and>
            GetPhases (openPhasesWhere projectId) \<in> set evs \<and>
            (\<not> faulty w (StoryCreate (newStoryPayload storyId sprintId s)) \<longrightarrow>
               PublishStoryCreate
                 \<lparr>s_title = s_title s, s_description = s_description s, s_projectId = s_projectId s,
               s_sprintId = sprintId, s_parentId = storyId, s_isDone = s_isDone s,
               s_id = freshId (stories w), s_createdAt = now w, s_updatedAt = now w,
               s_timeStart = None, s_timeEnd = None\<rparr> \<in> set evs)) \<and>
     stories (snd (splitStoryStage order storyId sprintId projectId s w)) =
       (if faulty w (StoryCreate (newStoryPayload storyId sprintId s)) then stories w
        else stories w @
             [\<lparr>s_title = s_title s, s_description = s_description s, s_projectId = s_projectId s,
               s_sprintId = sprintId, s_parentId = storyId, s_isDone = s_isDone s,
               s_id = freshId (stories w), s_createdAt = now w, s_updatedAt = now w,
               s_timeStart = None, s_timeEnd = None\<rparr>]) \<and>
     (\<exists>evs. trace (snd (finalizeStage order storyId created ts w)) = trace w @ evs @ [ContinuationInvoked] \<and>
           ContinuationInvoked \<notin> set evs \<and> JobCompleted ''0'' \<in> set evs \<and> JobCompleted ''1'' \<in> set evs \<and>
           StoryUpdate storyId \<lparr>up_isDone = True, up_timeStart = None, up_timeEnd = Some (now w)\<rparr> \<in> set evs \<and>
           StoryUpdate (s_id created) \<lparr>up_isDone = False, up_timeStart = Some (newStoryTimeStart ts), up_timeEnd = None\<rparr> \<in> set evs \<and>
           (\<not> faulty w (StoryUpdate storyId \<lparr>up_isDone = True, up_timeStart = None, up_timeEnd = Some (now w)\<rparr>) \<and> faulty w (StoryUpdate (s_id created) \<lparr>up_isDone = False, up_timeStart = Some (newStoryTimeStart ts), up_timeEnd = None\<rparr>) \<longrightarrow>
              (\<forall>x. find (\<lambda>x. s_id x = storyId) (stories w) = Some x \<longrightarrow>
                 PublishStoryUpdate storyId (apply_patch \<lparr>up_isDone = True, up_timeStart = None, up_timeEnd = Some (now w)\<rparr> x) \<in> set evs))) \<and>
     (\<exists>r. fst (finalizeStage order storyId created ts w) = Some r \<and>
           (faulty w (StoryUpdate storyId \<lparr>up_isDone = True, up_timeStart = None, up_timeEnd = Some (now w)\<rparr>) \<longrightarrow> r = Inl (PersistenceError (StoryUpdate storyId \<lparr>up_isDone = True, up_timeStart = None, up_timeEnd = Some (now w)\<rparr>))) \<and>
           (\<not> faulty w (StoryUpdate storyId \<lparr>up_isDone = True, up_timeStart = None, up_timeEnd = Some (now w)\<rparr>) \<and> faulty w (StoryUpdate (s_id created) \<lparr>up_isDone = False, up_timeStart = Some (newStoryTimeStart ts), up_timeEnd = None\<rparr>) \<and>
            (\<exists>x. find (\<lambda>x. s_id x = storyId) (stories w) = Some x) \<longrightarrow>
              r = Inl (PersistenceError (StoryUpdate (s_id created) \<lparr>up_isDone = False, up_timeStart = Some (newStoryTimeStart ts), up_timeEnd = None\<rparr>))))"
proof -
  from two_orders [OF d c] have o: "order = [0, 1] \<or> order = [1, 0]" .
  have W: "(fst (runParallel ord jobs w) = None) = (\<exists>i < length jobs. i \<notin> set ord)" by (rule runParallel_waits)
  have CA: "(ContinuationInvoked \<notin> set (trace w) \<longrightarrow>
       (ContinuationInvoked \<in> set (trace (snd (splitStoryStage ord storyId sprintId projectId s w)))) =
         ({0, 1} \<subseteq> set ord) \<and>
       (ContinuationInvoked \<in> set (trace (snd (finalizeStage ord storyId created ts w)))) =
         ({0, 1} \<subseteq> set ord))"
    by (simp add: stage_continuation)
  have AR: "fst (splitStoryStage order storyId sprintId projectId s w) =
       Some (if faulty w (StoryCreate (newStoryPayload storyId sprintId s))
             then Inl (PersistenceError (StoryCreate (newStoryPayload storyId sprintId s)))
             else if faulty w (GetPhases (openPhasesWhere projectId))
             then Inl (DataAccessError (GetPhases (openPhasesWhere projectId)))
             else Inr [ResultNewStory
                        \<lparr>s_title = s_title s, s_description = s_description s, s_projectId = s_projectId s,
               s_sprintId = sprintId, s_parentId = storyId, s_isDone = s_isDone s,
               s_id = freshId (stories w), s_createdAt = now w, s_updatedAt = now w,
               s_timeStart = None, s_timeEnd = None\<rparr>,
                       ResultPhases (find_where phase_field (openPhasesWhere projectId) (phases w))])"
    using o by (auto simp only: splitStoryStage_runs(1,2))
  have AS: "stories (snd (splitStoryStage order storyId sprintId projectId s w)) =
       (if faulty w (StoryCreate (newStoryPayload storyId sprintId s)) then stories w
        else stories w @
             [\<lparr>s_title = s_title s, s_description = s_description s, s_projectId = s_projectId s,
               s_sprintId = sprintId, s_parentId = storyId, s_isDone = s_isDone s,
               s_id = freshId (stories w), s_createdAt = now w, s_updatedAt = now w,
               s_timeStart = None, s_timeEnd = None\<rparr>])"
    using o by (auto simp only: splitStoryStage_runs(5,6))
  have AT: "(\<exists>evs. trace (snd (splitStoryStage order storyId sprintId projectId s w)) =
              trace w @ evs @ [ContinuationInvoked] \<and>
            ContinuationInvoked \<notin> set evs \<and>
            JobCompleted ''newStory'' \<in> set evs \<and> JobCompleted ''phases'' \<in> set evs \<and>
            StoryCreate (newStoryPayload storyId sprintId s) \<in> set evs \<and>
            GetPhases (openPhasesWhere projectId) \<in> set evs \<and>
            (\<not> faulty w (StoryCreate (newStoryPayload storyId sprintId s)) \<longrightarrow>
               PublishStoryCreate
                 \<lparr>s_title = s_title s, s_description = s_description s, s_projectId = s_projectId s,
               s_sprintId = sprintId, s_parentId = storyId, s_isDone = s_isDone s,
               s_id = freshId (stories w), s_createdAt = now w, s_updatedAt = now w,
               s_timeStart = None, s_timeEnd = None\<rparr> \<in> set evs))"
    using o
  proof
    assume o1: "order = [0, 1]"
    show ?thesis
      unfolding o1 splitStoryStage_runs(3) by (intro exI conjI, rule refl) auto
  next
    assume o1: "order = [1, 0]"
    show ?thesis
      unfolding o1 splitStoryStage_runs(4) by (intro exI conjI, rule refl) auto
  qed
  have FT: "(\<exists>evs. trace (snd (finalizeStage order storyId created ts w)) = trace w @ evs @ [ContinuationInvoked] \<and>
           ContinuationInvoked \<notin> set evs \<and> JobCompleted ''0'' \<in> set evs \<and> JobCompleted ''1'' \<in> set evs \<and>
           StoryUpdate storyId \<lparr>up_isDone = True, up_timeStart = None, up_timeEnd = Some (now w)\<rparr> \<in> set evs \<and>
           StoryUpdate (s_id created) \<lparr>up_isDone = False, up_timeStart = Some (newStoryTimeStart ts), up_timeEnd = None\<rparr> \<in> set evs \<and>
           (\<not> faulty w (StoryUpdate storyId \<lparr>up_isDone = True, up_timeStart = None, up_timeEnd = Some (now w)\<rparr>) \<and> faulty w (StoryUpdate (s_id created) \<lparr>up_isDone = False, up_timeStart = Some (newStoryTimeStart ts), up_timeEnd = None\<rparr>) \<longrightarrow>
              (\<forall>x. find (\<lambda>x. s_id x = storyId) (stories w) = Some x \<longrightarrow>
                 PublishStoryUpdate storyId (apply_patch \<lparr>up_isDone = True, up_timeStart = None, up_timeEnd = Some (now w)\<rparr> x) \<in> set evs)))"
    using o by (rule disjE) (rule finalizeStage_registration_order(1), assumption,
      rule finalizeStage_reverse_order(1), assumption)
  have FR: "(\<exists>r. fst (finalizeStage order storyId created ts w) = Some r \<and>
           (faulty w (StoryUpdate storyId \<lparr>up_isDone = True, up_timeStart = None, up_timeEnd = Some (now w)\<rparr>) \<longrightarrow> r = Inl (PersistenceError (StoryUpdate storyId \<lparr>up_isDone = True, up_timeStart = None, up_timeEnd = Some (now w)\<rparr>))) \<and>
           (\<not> faulty w (StoryUpdate storyId \<lparr>up_isDone = True, up_timeStart = None, up_timeEnd = Some (now w)\<rparr>) \<and> faulty w (StoryUpdate (s_id created) \<lparr>up_isDone = False, up_timeStart = Some (newStoryTimeStart ts), up_timeEnd = None\<rparr>) \<and>
            (\<exists>x. find (\<lambda>x. s_id x = storyId) (stories w) = Some x) \<longrightarrow>
              r = Inl (PersistenceError (StoryUpdate (s_id created) \<lparr>up_isDone = False, up_timeStart = Some (newStoryTimeStart ts), up_timeEnd = None\<rparr>))))"
    using o by (rule disjE) (rule finalizeStage_registration_order(2), assumption,
      rule finalizeStage_reverse_order(2), assumption)
  from W CA AR AT AS FT FR show ?thesis by (intro conjI)
qed

section \<open>The claims on the example data\<close>

lemma run_Inr: "\<not> isl (fst x) \<Longrightarrow> x = (Inr (projr (fst x)), snd x)"
  by (cases x; cases "fst x"; simp)

lemma ex_progress:
  "d_tasks (ex_view_data [] [True, True, False, False]) =
     [ex_task 1 11 True None, ex_task 2 11 True None, ex_task 3 11 False None, ex_task 4 11 False None]"
  "d_tasks (ex_view_data [] [False, False, False]) =
     [ex_task 1 11 False None, ex_task 2 11 False None, ex_task 3 11 False None]"
  "d_tasks (ex_view_data [] []) = []"
  by (simp_all add: ex_view_data_def enumerate_eq_zip upt_rec)

lemma ex_progress_run:
  "cntTaskTotal (makeView (ex_view_data [] [True, True, False, False])) = 4"
  "cntTaskDone (makeView (ex_view_data [] [True, True, False, False])) = 2"
  "progressTask (makeView (ex_view_data [] [True, True, False, False])) = Fin 50"
  "cntTaskTotal (makeView (ex_view_data [] [False, False, False])) = 3"
  "progressTask (makeView (ex_view_data [] [False, False, False])) = Fin 0"
  "progressTask (makeView (ex_view_data [] [])) = Fin 0"
  "cntTaskTotal (makeView (ex_view_data [] (replicate 23 True @ replicate 17 False))) = 40"
  "cntTaskDone (makeView (ex_view_data [] (replicate 23 True @ replicate 17 False))) = 23"
  "progressTask (makeView (ex_view_data [] (replicate 23 True @ replicate 17 False))) = Fin 57"
  by code_simp+

lemma ex_progress_doubles:
  "calcProgress 23 40 = Fin 57" "calcProgress 29 200 = Fin 14" "calcProgress 57 200 = Fin 28"
  "js_times (js_div 23 40) 100 = Fin (8092405580431359 / 140737488355328)"
  by code_simp+

text \<open>
  C6 on the examples of the specification (4 tasks with 2 done, 3 tasks with none done,
  no task) and on 40 tasks with 23 done, where the product of doubles is
  57.49999999999999 and the progress is 57.
\<close>

theorem C6_progress_witness:
  "progressTask (makeView (ex_view_data [] [True, True, False, False])) = Fin 50 \<and>
   cntTaskTotal (makeView (ex_view_data [] [True, True, False, False])) = 4 \<and>
   cntTaskDone (makeView (ex_view_data [] [True, True, False, False])) = 2 \<and>
   progressTask (makeView (ex_view_data [] [False, False, False])) = Fin 0 \<and>
   cntTaskTotal (makeView (ex_view_data [] [False, False, False])) = 3 \<and>
   progressTask (makeView (ex_view_data [] [])) = Fin 0 \<and>
   cntTaskTotal (makeView (ex_view_data [] (replicate 23 True @ replicate 17 False))) = 40 \<and>
   cntTaskDone (makeView (ex_view_data [] (replicate 23 True @ replicate 17 False))) = 23 \<and>
   progressTask (makeView (ex_view_data [] (replicate 23 True @ replicate 17 False))) = Fin 57"
proof -
  from C6_progress [of "ex_view_data [] [True, True, False, False]"]
    C6_progress [of "ex_view_data [] [False, False, False]"]
    C6_progress [of "ex_view_data [] []"]
    C6_progress [of "ex_view_data [] (replicate 23 True @ replicate 17 False)"]
  show ?thesis by (simp add: ex_progress_run)
qed

lemma ex_phases:
  "d_phases (ex_view_data [100, 50, 0] []) =
     [withDuration (ex_phase 10 0) 100, withDuration (ex_phase 11 1) 50, withDuration (ex_phase 12 2) 0]"
  "d_phases (ex_view_data [0, 5, -5] []) =
     [withDuration (ex_phase 10 0) 0, withDuration (ex_phase 11 1) 5, withDuration (ex_phase 12 2) (-5)]"
  "d_phases (ex_view_data [] []) = []"
  by (simp_all add: ex_view_data_def enumerate_eq_zip upt_rec)

text \<open>
  Claim C3 as stated fails: with durations 0, 5 and -5 for the phases of order 0, 1 and 2,
  both totals are 0 and both percentages of the phase of order 1 are infinite.
\<close>

theorem C3_counterexample:
  "map p_duration (v_phases (makeView (ex_view_data [0, 5, -5] []))) = [0, 5, -5] \<and>
   map durationPercentageTotal (v_phases (makeView (ex_view_data [0, 5, -5] []))) = [Fin 0, PosInf, Fin 0] \<and>
   map durationPercentage (v_phases (makeView (ex_view_data [0, 5, -5] []))) = [Fin 0, PosInf, Fin 0]"
  by (simp add: makeView_totals ex_phases calcTotalTime_sum calcTotalTimeNoFirst_sum
      withDuration_def ex_phase_def calcDurationPercentage_def calcDurationPercentageTotal_def
      js_div_def js_times_def)

lemma ex_percentages:
  "v_phases (makeView (ex_view_data [100, 50, 0] [])) =
     [withPercentages 150 50 (withDuration (ex_phase 10 0) 100),
      withPercentages 150 50 (withDuration (ex_phase 11 1) 50),
      withPercentages 150 50 (withDuration (ex_phase 12 2) 0)]"
  by (simp add: makeView_totals ex_phases calcTotalTime_sum calcTotalTimeNoFirst_sum
      withDuration_def ex_phase_def)

text \<open>
  C3 on the example of the specification, durations 100, 50 and 0: the percentages of
  the total are the doubles 66.66666666666666 and 33.33333333333333.
\<close>

theorem C3_percentages_witness:
  "map durationPercentageTotal (v_phases (makeView (ex_view_data [100, 50, 0] []))) =
     [Fin (2345624805922133 / 35184372088832), Fin (2345624805922133 / 70368744177664), Fin 0] \<and>
   map durationPercentage (v_phases (makeView (ex_view_data [100, 50, 0] []))) =
     [Fin 0, Fin 100, Fin 0]"
proof -
  let ?d = "ex_view_data [100, 50, 0] []"
  have m: "v_phases (makeView ?d) ! 1 \<in> set (v_phases (makeView ?d))" by (simp add: ex_percentages)
  have nn: "\<forall>q \<in> set (d_phases ?d). 0 \<le> p_duration q" by (simp add: ex_phases withDuration_def)
  have v: "map durationPercentageTotal (v_phases (makeView ?d)) =
     [Fin (2345624805922133 / 35184372088832), Fin (2345624805922133 / 70368744177664), Fin 0]"
    "map durationPercentage (v_phases (makeView ?d)) = [Fin 0, Fin 100, Fin 0]"
    by code_simp+
  from C3_percentages [OF m] nn
  have "\<exists>r. durationPercentageTotal (v_phases (makeView ?d) ! 1) = Fin r \<and> 0 \<le> r \<and> r \<le> 100" by blast
  then show ?thesis by (simp add: v)
qed

lemma ex_world_fields:
  "stories (ex_world starts rows) = [ex_story 1]"
  "phases (ex_world starts rows) = [ex_phase 11 2, ex_phase 12 1, (ex_phase 13 0)\<lparr>p_isDone := True\<rparr>]"
  "faulty (ex_world starts rows) = (\<lambda>c. False)"
  "now (ex_world starts rows) = 9000"
  "trace (ex_world starts rows) = []"
  by (simp_all add: ex_world_def)

lemma ex_world_tasks:
  "tasks (ex_world [Some 5000, Some 7000, None] rows) =
     [ex_task 1 11 False (Some 5000), ex_task 2 12 False (Some 7000), ex_task 3 13 False None]"
  "tasks (ex_world [Some 0, None] rows) = [ex_task 1 11 False (Some 0), ex_task 2 12 False None]"
  by (simp_all add: ex_world_def enumerate_eq_zip upt_rec)

lemma ex_world_ledger:
  "ledger (ex_world starts [(11, 30), (11, 12), (12, 8)]) =
     [\<lparr>pd_phaseId = 11, pd_storyId = 1, pd_duration = 30\<rparr>,
      \<lparr>pd_phaseId = 11, pd_storyId = 1, pd_duration = 12\<rparr>,
      \<lparr>pd_phaseId = 12, pd_storyId = 1, pd_duration = 8\<rparr>]"
  by (simp add: ex_world_def)

text \<open>C4 on a ledger with two rows for phase 11 and one for phase 12, and on the example durations.\<close>

theorem C4_durations_and_totals_witness:
  "map p_duration (projr (fst (fetchPhaseDuration (ex_story 1)
        [ex_phase 11 2, ex_phase 12 1, ex_phase 13 0] (ex_world [] [(11, 30), (11, 12), (12, 8)])))) =
     [42, 8, 0] \<and>
   totalTime (makeView (ex_view_data [100, 50, 0] [])) = 150 \<and>
   totalTimeNoFirst (makeView (ex_view_data [100, 50, 0] [])) = 50 \<and>
   totalTime (makeView (ex_view_data [] [])) = 0 \<and>
   totalTimeNoFirst (makeView (ex_view_data [] [])) = 0"
proof -
  let ?w = "ex_world [] [(11, 30), (11, 12), (12, 8)]"
  let ?phs = "[ex_phase 11 2, ex_phase 12 1, ex_phase 13 0]"
  let ?x = "fetchPhaseDuration (ex_story 1) ?phs ?w"
  have nf: "\<forall>c. \<not> faulty ?w c" by (simp add: ex_world_fields)
  note a = C4_durations_and_totals [of "ex_story 1" ?phs ?w "projr (fst ?x)" "ex_view_data [100, 50, 0] []"]
  note b = C4_durations_and_totals [of "ex_story 1" ?phs ?w "projr (fst ?x)" "ex_view_data [] []"]
  from a nf obtain phds where ok: "fst ?x = Inr phds" by blast
  then have "fst ?x = Inr (projr (fst ?x))" by simp
  with a have "projr (fst ?x) = map (\<lambda>p. withDuration p (sum_list (map pd_duration
                (filter (\<lambda>r. pd_phaseId r = p_id p \<and> pd_storyId r = s_id (ex_story 1)) (ledger ?w))))) ?phs"
    by blast
  then have "map p_duration (projr (fst ?x)) = [42, 8, 0]"
    by (simp add: ex_world_ledger withDuration_def ex_phase_def ex_story_def)
  with a b show ?thesis
    by (simp add: ex_phases withDuration_def ex_phase_def)
qed

text \<open>
  Claim C5 fails on the code: the filter of the tasks action names the attribute
  \<^verbatim>\<open>storyid\<close>, which no task has, so on a table where every task belongs to story 1 the
  fetch for story 1 selects nothing, while the filter \<^verbatim>\<open>{storyId: 1}\<close>, as in the split
  action, selects them all; the view of story 1 then counts no task.
\<close>

theorem C5_tasks_filter_misses:
  "map t_storyId (tasks (ex_world [Some 5000, Some 7000, None] [])) = [1, 1, 1] \<and>
   fst (tasksJob 1 (ex_world [Some 5000, Some 7000, None] [])) = Inr [] \<and>
   fst (getTasks [Field ''storyId'' 1] (ex_world [Some 5000, Some 7000, None] [])) =
     Inr (tasks (ex_world [Some 5000, Some 7000, None] [])) \<and>
   \<not> isl (fst (tasksAction 1 (ex_world [Some 5000, Some 7000, None] []))) \<and>
   cntTaskTotal (projr (fst (tasksAction 1 (ex_world [Some 5000, Some 7000, None] [])))) = 0"
proof (intro conjI)
  show "map t_storyId (tasks (ex_world [Some 5000, Some 7000, None] [])) = [1, 1, 1]"
    by (simp add: ex_world_tasks ex_task_def)
  show "fst (tasksJob 1 (ex_world [Some 5000, Some 7000, None] [])) = Inr []"
    by (simp add: tasksJob_def tasksWhere_def getTasks_def find_where_def task_field_def
        ex_world_fields)
  show "fst (getTasks [Field ''storyId'' 1] (ex_world [Some 5000, Some 7000, None] [])) =
     Inr (tasks (ex_world [Some 5000, Some 7000, None] []))"
    by (simp add: getTasks_def find_where_def task_field_def ex_world_fields ex_world_tasks ex_task_def)
  show "\<not> isl (fst (tasksAction 1 (ex_world [Some 5000, Some 7000, None] [])))"
    by code_simp
  show "cntTaskTotal (projr (fst (tasksAction 1 (ex_world [Some 5000, Some 7000, None] [])))) = 0"
    by code_simp
qed

lemma ex_backlog_run:
  "map t_storyId (tasks (snd (split 1 0 1 (ex_world [Some 5000, Some 7000, None] [])))) = [2, 2, 1]"
  "map t_phaseId (tasks (snd (split 1 0 1 (ex_world [Some 5000, Some 7000, None] [])))) = [12, 12, 13]"
  "map t_timeStart (tasks (snd (split 1 0 1 (ex_world [Some 5000, Some 7000, None] [])))) = [None, None, None]"
  by code_simp+

lemma ex_sprint_run:
  "map t_storyId (tasks (snd (split 1 7 1 (ex_world [Some 5000, Some 7000, None] [])))) = [2, 2, 1]"
  "map t_phaseId (tasks (snd (split 1 7 1 (ex_world [Some 5000, Some 7000, None] [])))) = [11, 12, 13]"
  "map t_timeStart (tasks (snd (split 1 7 1 (ex_world [Some 5000, Some 7000, None] [])))) =
     [Some 5000, Some 7000, None]"
  by code_simp+

lemma ex_open_phases:
  "find_where phase_field (openPhasesWhere 1) (phases (ex_world starts rows)) = [ex_phase 11 2, ex_phase 12 1]"
  "find_where phase_field (openPhasesWhere 2) (phases (ex_world starts rows)) = []"
  by (simp_all add: ex_world_fields find_where_def openPhasesWhere_def phase_field_def ex_phase_def)

lemma ex_distinct: "distinct (map t_id (tasks (ex_world [Some 5000, Some 7000, None] [])))"
  by (simp add: ex_world_tasks ex_task_def)

text \<open>C1 on the example world: the two tasks in open phases go to phase 12, of order 1, without start time.\<close>

theorem C1_backlog_split_witness:
  "distinct (map t_id (tasks (ex_world [Some 5000, Some 7000, None] []))) \<and>
   find_where phase_field (openPhasesWhere 1) (phases (ex_world [Some 5000, Some 7000, None] [])) \<noteq> [] \<and>
   map t_phaseId (tasks (snd (split 1 0 1 (ex_world [Some 5000, Some 7000, None] [])))) = [12, 12, 13] \<and>
   map t_timeStart (tasks (snd (split 1 0 1 (ex_world [Some 5000, Some 7000, None] [])))) = [None, None, None]"
proof -
  let ?w = "ex_world [Some 5000, Some 7000, None] []"
  have h1: "distinct (map t_id (tasks ?w))" by (rule ex_distinct)
  have h2: "split 1 0 1 ?w = (fst (split 1 0 1 ?w), snd (split 1 0 1 ?w))" by simp
  have h3: "find_where phase_field (openPhasesWhere 1) (phases ?w) \<noteq> []" by (simp add: ex_open_phases)
  from C1_backlog_split [OF h1 h2 h3] h1 h3 show ?thesis by (simp add: ex_backlog_run)
qed

text \<open>C2 on the example world: the two tasks in open phases change story and nothing else.\<close>

theorem C2_sprint_split_witness:
  "distinct (map t_id (tasks (ex_world [Some 5000, Some 7000, None] []))) \<and>
   map t_storyId (tasks (snd (split 1 7 1 (ex_world [Some 5000, Some 7000, None] [])))) = [2, 2, 1] \<and>
   map t_phaseId (tasks (snd (split 1 7 1 (ex_world [Some 5000, Some 7000, None] [])))) = [11, 12, 13] \<and>
   map t_timeStart (tasks (snd (split 1 7 1 (ex_world [Some 5000, Some 7000, None] [])))) =
     [Some 5000, Some 7000, None]"
proof -
  let ?w = "ex_world [Some 5000, Some 7000, None] []"
  have h1: "distinct (map t_id (tasks ?w))" by (rule ex_distinct)
  have h2: "split 1 7 1 ?w = (fst (split 1 7 1 ?w), snd (split 1 7 1 ?w))" by simp
  have h3: "(7::int) \<noteq> 0" by simp
  from C2_sprint_split [OF h1 h2 h3] h1 show ?thesis by (simp add: ex_sprint_run)
qed

text \<open>
  C7 on the example world, for a split of story 1 into sprint 7: the create call, the
  story table after the split, and the new story the split returns.
\<close>

lemma ex_clone_run:
  "\<not> isl (fst (split 1 7 1 (ex_world [Some 5000, Some 7000, None] [])))"
  "map (\<lambda>x. (s_id x, s_title x, s_description x, s_projectId x, s_sprintId x, s_parentId x))
     (stories (ex_world [Some 5000, Some 7000, None] [])) = [(1, ''Story'', ''Text'', 1, 3, 0)]"
  "freshId (stories (ex_world [Some 5000, Some 7000, None] [])) = 2"
  by code_simp+

theorem C7_clone_payload_witness:
  "StoryCreate \<lparr>s_title = ''Story'', s_description = ''Text'', s_projectId = 1, s_sprintId = 7,
                s_parentId = 1, s_isDone = False\<rparr>
     \<in> set (trace (snd (split 1 7 1 (ex_world [Some 5000, Some 7000, None] [])))) \<and>
   map (\<lambda>x. (s_id x, s_title x, s_description x, s_projectId x, s_sprintId x, s_parentId x))
     (stories (snd (split 1 7 1 (ex_world [Some 5000, Some 7000, None] [])))) =
     [(1, ''Story'', ''Text'', 1, 3, 0), (2, ''Story'', ''Text'', 1, 7, 1)] \<and>
   \<not> isl (fst (split 1 7 1 (ex_world [Some 5000, Some 7000, None] []))) \<and>
   storyNew (projr (fst (split 1 7 1 (ex_world [Some 5000, Some 7000, None] []))))
     \<in> set (stories (snd (split 1 7 1 (ex_world [Some 5000, Some 7000, None] [])))) \<and>
   s_id (storyNew (projr (fst (split 1 7 1 (ex_world [Some 5000, Some 7000, None] []))))) = 2 \<and>
   s_title (storyNew (projr (fst (split 1 7 1 (ex_world [Some 5000, Some 7000, None] []))))) = ''Story'' \<and>
   s_sprintId (storyNew (projr (fst (split 1 7 1 (ex_world [Some 5000, Some 7000, None] []))))) = 7 \<and>
   s_parentId (storyNew (projr (fst (split 1 7 1 (ex_world [Some 5000, Some 7000, None] []))))) = 1"
proof -
  let ?w = "ex_world [Some 5000, Some 7000, None] []"
  let ?x = "split 1 7 1 ?w"
  have h1: "\<not> faulty ?w (GetStory 1)" and h2: "find (\<lambda>x. s_id x = 1) (stories ?w) = Some (ex_story 1)"
    and h3: "\<not> faulty ?w (StoryCreate (newStoryPayload 1 7 (ex_story 1)))"
    by (simp_all add: ex_world_fields ex_story_def)
  have run: "?x = (Inr (projr (fst ?x)), snd ?x)" by (rule run_Inr) (rule ex_clone_run)
  have st: "s_title (ex_story 1) = ''Story''" "s_description (ex_story 1) = ''Text''"
    "s_projectId (ex_story 1) = 1"
    by (simp_all add: ex_story_def)
  from C7_clone_payload [of 1 7 "ex_story 1" ?w 1 "projr (fst ?x)" "snd ?x"] h1 h2 h3 run
  have "StoryCreate (newStoryPayload 1 7 (ex_story 1)) \<in> set (trace (snd ?x))"
    and "map (\<lambda>x. (s_id x, s_title x, s_description x, s_projectId x, s_sprintId x, s_parentId x))
           (stories (snd ?x)) =
         map (\<lambda>x. (s_id x, s_title x, s_description x, s_projectId x, s_sprintId x, s_parentId x))
           (stories ?w) @
         [(freshId (stories ?w), s_title (ex_story 1), s_description (ex_story 1),
           s_projectId (ex_story 1), 7, 1)]"
    and "storyNew (projr (fst ?x)) \<in> set (stories (snd ?x))"
    and "s_id (storyNew (projr (fst ?x))) = freshId (stories ?w)"
    and "s_title (storyNew (projr (fst ?x))) = s_title (ex_story 1)"
    and "s_sprintId (storyNew (projr (fst ?x))) = 7"
    and "s_parentId (storyNew (projr (fst ?x))) = 1"
    by blast+
  then show ?thesis
    by (simp add: ex_clone_run st newStoryPayload_def deleteFields_def ex_story_def)
qed

text \<open>C9 on the example world, for project 2, which has no phase.\<close>

theorem C9_no_open_phases_witness:
  "\<not> isl (fst (split 1 7 2 (ex_world [Some 5000, Some 7000, None] []))) \<and>
   movedTasks (projr (fst (split 1 7 2 (ex_world [Some 5000, Some 7000, None] [])))) = [] \<and>
   taskCnt (projr (fst (split 1 7 2 (ex_world [Some 5000, Some 7000, None] [])))) = 0 \<and>
   tasks (snd (split 1 7 2 (ex_world [Some 5000, Some 7000, None] []))) =
     tasks (ex_world [Some 5000, Some 7000, None] []) \<and>
   s_isDone (storyOld (projr (fst (split 1 7 2 (ex_world [Some 5000, Some 7000, None] []))))) \<and>
   s_timeEnd (storyOld (projr (fst (split 1 7 2 (ex_world [Some 5000, Some 7000, None] []))))) = Some 9000"
proof -
  let ?w = "ex_world [Some 5000, Some 7000, None] []"
  have nf: "\<forall>k. \<not> faulty ?w k" by (simp add: ex_world_fields)
  have found: "find (\<lambda>x. s_id x = 1) (stories ?w) = Some (ex_story 1)"
    by (simp add: ex_world_fields ex_story_def)
  have empty: "find_where phase_field (openPhasesWhere 2) (phases ?w) = []" by (rule ex_open_phases)
  from C9_no_open_phases [OF nf found empty, of 7] obtain d w' c
    where "split 1 7 2 ?w = (Inr d, w')" and "movedTasks d = []" and "taskCnt d = 0"
      and "tasks w' = tasks ?w" and "storyOld d = (ex_story 1)\<lparr>s_isDone := True, s_timeEnd := Some (now ?w)\<rparr>"
    by blast
  then show ?thesis by (simp add: ex_world_fields)
qed

lemma ex_finalize_run:
  "\<not> isl (fst (finalizeStorySplit 1 (ex_story 2)
            [ex_task 1 11 False (Some 5000), ex_task 2 12 False (Some 7000)] ex_two_stories))"
  "s_timeStart (storyNew (projr (fst (finalizeStorySplit 1 (ex_story 2)
            [ex_task 1 11 False (Some 5000), ex_task 2 12 False (Some 7000)] ex_two_stories)))) = Some 7000"
  "s_id (storyNew (projr (fst (finalizeStorySplit 1 (ex_story 2)
            [ex_task 1 11 False (Some 5000), ex_task 2 12 False (Some 7000)] ex_two_stories)))) = 2"
  by code_simp+

text \<open>Two reassigned tasks that started at 5000 and 7000: the destination story starts at 7000.\<close>

lemma ex_finalize_new_story:
  "s_timeStart (storyNew (projr (fst (finalizeStorySplit 1 (ex_story 2)
      [ex_task 1 11 False (Some 5000), ex_task 2 12 False (Some 7000)] ex_two_stories)))) =
   Some (Max {ms. \<exists>t \<in> set [ex_task 1 11 False (Some 5000), ex_task 2 12 False (Some 7000)].
                 t_timeStart t = Some ms}) \<and>
   s_timeStart (storyNew (projr (fst (finalizeStorySplit 1 (ex_story 2)
      [ex_task 1 11 False (Some 5000), ex_task 2 12 False (Some 7000)] ex_two_stories)))) = Some 7000"
proof -
  let ?ts = "[ex_task 1 11 False (Some 5000), ex_task 2 12 False (Some 7000)]"
  let ?x = "finalizeStorySplit 1 (ex_story 2) ?ts ex_two_stories"
  have run: "?x = (Inr (projr (fst ?x)), snd ?x)" by (rule run_Inr) (rule ex_finalize_run)
  have pos: "\<forall>t \<in> set ?ts. \<forall>ms. t_timeStart t = Some ms \<longrightarrow> 0 < ms"
    by (simp add: ex_task_def)
  have m: "{ms. ms = 5000 \<or> ms = 7000} = {5000, 7000::int}" by auto
  from finalize_new_story_after_epoch [OF run pos] show ?thesis
    by (simp add: ex_finalize_run ex_task_def m)
qed

text \<open>
  Claim C8 fails on the code. The finalize stage runs on two reassigned tasks, one
  started at the epoch (its time value is 0) and one without start time, and succeeds.
  The greatest start time among the reassigned tasks is the epoch, and not every start
  time is \<^verbatim>\<open>null\<close>, yet the destination story is stored with \<^verbatim>\<open>timeStart = null\<close>: the
  loop of lines 393 to 399 starts from \<^verbatim>\<open>null\<close> and replaces it only when
  \<^verbatim>\<open>task.timeStart > timeStart\<close>, and \<^verbatim>\<open>new Date(0) > null\<close> is false. The other two
  fields are as the claim says.
\<close>

theorem C8_epoch_start_dropped:
  "\<not> isl (fst (finalizeStorySplit 1 (ex_story 2)
            [ex_task 1 11 False (Some 0), ex_task 2 12 False None] ex_two_stories)) \<and>
   map t_timeStart (movedTasks (projr (fst (finalizeStorySplit 1 (ex_story 2)
            [ex_task 1 11 False (Some 0), ex_task 2 12 False None] ex_two_stories)))) = [Some 0, None] \<and>
   s_timeStart (storyNew (projr (fst (finalizeStorySplit 1 (ex_story 2)
            [ex_task 1 11 False (Some 0), ex_task 2 12 False None] ex_two_stories)))) = None \<and>
   s_isDone (storyNew (projr (fst (finalizeStorySplit 1 (ex_story 2)
            [ex_task 1 11 False (Some 0), ex_task 2 12 False None] ex_two_stories)))) = False \<and>
   s_timeEnd (storyNew (projr (fst (finalizeStorySplit 1 (ex_story 2)
            [ex_task 1 11 False (Some 0), ex_task 2 12 False None] ex_two_stories)))) = None"
  by (intro conjI; code_simp)

text \<open>
  C10 on the example world with a failing fetch of the phases, the job \<^verbatim>\<open>phases\<close>
  completing first: the stage reports the error of the fetch, the new story is stored
  and published, and the continuation comes last; with only that job completed, the
  stage has no result and no continuation is invoked.
\<close>

lemma ex_phases_down_fields:
  "stories ex_phases_down = [ex_story 1]"
  "faulty ex_phases_down k = (k = GetPhases (openPhasesWhere 1))"
  "now ex_phases_down = 9000"
  "trace ex_phases_down = []"
  "freshId [ex_story 1] = 2"
  by (simp_all add: ex_phases_down_def ex_world_def freshId_def ex_story_def)

theorem C10_parallel_stages_witness:
  "fst (splitStoryStage [1, 0] 1 7 1 (ex_story 1) ex_phases_down) =
     Some (Inl (DataAccessError (GetPhases (openPhasesWhere 1)))) \<and>
   map (\<lambda>x. (s_id x, s_sprintId x, s_parentId x))
     (stories (snd (splitStoryStage [1, 0] 1 7 1 (ex_story 1) ex_phases_down))) = [(1, 3, 0), (2, 7, 1)] \<and>
   PublishStoryCreate
     \<lparr>s_title = ''Story'', s_description = ''Text'', s_projectId = 1, s_sprintId = 7, s_parentId = 1,
      s_isDone = False, s_id = 2, s_createdAt = 9000, s_updatedAt = 9000,
      s_timeStart = None, s_timeEnd = None\<rparr>
     \<in> set (trace (snd (splitStoryStage [1, 0] 1 7 1 (ex_story 1) ex_phases_down))) \<and>
   last (trace (snd (splitStoryStage [1, 0] 1 7 1 (ex_story 1) ex_phases_down))) = ContinuationInvoked \<and>
   fst (splitStoryStage [1] 1 7 1 (ex_story 1) ex_phases_down) = None \<and>
   ContinuationInvoked \<notin> set (trace (snd (splitStoryStage [1] 1 7 1 (ex_story 1) ex_phases_down)))"
proof -
  have h1: "distinct [1, 0::nat]" and h2: "set [1, 0::nat] = {0, 1}" by auto
  note t = C10_parallel_stages [OF h1 h2, where storyId = 1 and sprintId = 7 and projectId = 1
      and s = "ex_story 1" and w = ex_phases_down]
  have nf: "\<not> faulty ex_phases_down (StoryCreate (newStoryPayload 1 7 (ex_story 1)))"
    by (simp add: ex_phases_down_fields)
  have st: "s_title (ex_story 1) = ''Story''" "s_description (ex_story 1) = ''Text''"
    "s_projectId (ex_story 1) = 1" "s_isDone (ex_story 1) = False"
    "s_id (ex_story 1) = 1" "s_sprintId (ex_story 1) = 3" "s_parentId (ex_story 1) = 0"
    by (simp_all add: ex_story_def)
  from t [THEN conjunct2, THEN conjunct2, THEN conjunct1]
  have a: "fst (splitStoryStage [1, 0] 1 7 1 (ex_story 1) ex_phases_down) =
     Some (Inl (DataAccessError (GetPhases (openPhasesWhere 1))))"
    by (simp add: ex_phases_down_fields)
  from t [THEN conjunct2, THEN conjunct2, THEN conjunct2, THEN conjunct2, THEN conjunct1]
  have b: "map (\<lambda>x. (s_id x, s_sprintId x, s_parentId x))
     (stories (snd (splitStoryStage [1, 0] 1 7 1 (ex_story 1) ex_phases_down))) = [(1, 3, 0), (2, 7, 1)]"
    by (simp add: ex_phases_down_fields st)
  from t [THEN conjunct2, THEN conjunct2, THEN conjunct2, THEN conjunct1] nf
  have c: "PublishStoryCreate
     \<lparr>s_title = ''Story'', s_description = ''Text'', s_projectId = 1, s_sprintId = 7, s_parentId = 1,
      s_isDone = False, s_id = 2, s_createdAt = 9000, s_updatedAt = 9000,
      s_timeStart = None, s_timeEnd = None\<rparr>
     \<in> set (trace (snd (splitStoryStage [1, 0] 1 7 1 (ex_story 1) ex_phases_down)))"
    and d: "last (trace (snd (splitStoryStage [1, 0] 1 7 1 (ex_story 1) ex_phases_down))) = ContinuationInvoked"
    by (auto simp add: ex_phases_down_fields st)
  have ex: "\<exists>i < length (splitStoryJobs 1 7 1 (ex_story 1)). i \<notin> set [1::nat]"
    by (rule exI [of _ 0]) (simp add: splitStoryJobs_def)
  from t [where ord = "[1]" and jobs = "splitStoryJobs 1 7 1 (ex_story 1)", THEN conjunct1] ex
  have e: "fst (splitStoryStage [1] 1 7 1 (ex_story 1) ex_phases_down) = None"
    unfolding splitStoryStage_def by (rule iffD2)
  from t [where ord = "[1]", THEN conjunct2, THEN conjunct1]
  have f: "ContinuationInvoked \<notin> set (trace (snd (splitStoryStage [1] 1 7 1 (ex_story 1) ex_phases_down)))"
    by (simp add: ex_phases_down_fields)
  from a b c d e f show ?thesis by (intro conjI)
qed

end
